theory Spec2Isabelle
  imports Main "HOL-Library.Word" "HOL-Library.Monad_Syntax"
begin

section \<open>mruby/c String object (src/c\_string.c)\<close>

text \<open>
  A shallow embedding of the string class of mruby/c. Memory is an explicit store of
  allocated blocks; every function of the source that touches memory takes the machine
  state and returns the new one. An access outside a live block (undefined behaviour in
  C) is the result \<open>None\<close>; an allocation failure is an ordinary result, as in the
  source.
\<close>

subsection \<open>Data\<close>

type_synonym u8 = "8 word"

text \<open>C \<open>int\<close> and the fixnum payload: 32 bits, two's complement, wrapping.\<close>

type_synonym cint = "32 word"

type_synonym addr = nat

text \<open>
  Modelled from the spec: the type tags of value.h (not under src/). The source names
  \<open>MRB_TT_STRING\<close> and \<open>MRB_TT_FIXNUM\<close>; the result macros need nil, false and true;
  every other tag is \<open>MRB_TT_OTHER\<close>.
\<close>

datatype mrb_vtype =
    MRB_TT_EMPTY
  | MRB_TT_NIL
  | MRB_TT_FALSE
  | MRB_TT_TRUE
  | MRB_TT_FIXNUM
  | MRB_TT_STRING
  | MRB_TT_OTHER nat

text \<open>
  Modelled from the spec: \<open>mrb_value\<close> of value.h, a type tag and a payload. The
  source reads the payload as \<open>i\<close> (fixnum), \<open>handle\<close> (pointer to the handle cell) and
  \<open>str\<close> (the buffer pointer kept in a handle cell). A pointer is \<open>None\<close> for NULL.
\<close>

record mrb_value =
  tt :: mrb_vtype
  i :: cint
  handle :: "addr option"
  str :: "addr option"

datatype block = Cell mrb_value | Bytes "u8 list"

text \<open>
  Modelled from the spec: the allocator of alloc.h (\<open>allocate(size) -> pointer | failure\<close>,
  \<open>reallocate(pointer, newSize) -> pointer | failure\<close>, \<open>free(pointer)\<close>). Whether a
  request succeeds is not decided by this file, so the state carries the outcomes of the
  requests to come: \<open>Refuse\<close>, or \<open>Grant f moved\<close> where \<open>f\<close> is the byte found in memory
  that the request does not initialise and \<open>moved\<close> tells whether a reallocation relocates
  the block. An exhausted list refuses.
\<close>

datatype outcome = Refuse | Grant u8 bool

text \<open>
  Modelled from the spec: the state reached through \<open>mrb_vm *vm\<close> (vm.h is not under
  src/; the methods use \<open>vm\<close> only to reach the allocator): the allocated blocks (the
  address of a block is its position; a freed block is \<open>None\<close>), the allocator outcomes
  to come, the lines given to \<open>console_print\<close>, and the values handed to
  \<open>mrbc_release\<close>.
\<close>

record mrb_vm =
  heap :: "block option list"
  plan :: "outcome list"
  console :: "string list"
  released :: "mrb_value list"

type_synonym regs = "nat \<Rightarrow> mrb_value"

subsection \<open>Memory\<close>

definition load :: "mrb_vm \<Rightarrow> addr option \<Rightarrow> block option" where
  "load vm p =
     (case p of None \<Rightarrow> None
      | Some a \<Rightarrow> if a < length (heap vm) then heap vm ! a else None)"

definition load_value :: "mrb_vm \<Rightarrow> addr option \<Rightarrow> mrb_value option" where
  "load_value vm p = (case load vm p of Some (Cell c) \<Rightarrow> Some c | _ \<Rightarrow> None)"

definition load_bytes :: "mrb_vm \<Rightarrow> addr option \<Rightarrow> u8 list option" where
  "load_bytes vm p = (case load vm p of Some (Bytes bs) \<Rightarrow> Some bs | _ \<Rightarrow> None)"

definition store :: "mrb_vm \<Rightarrow> addr \<Rightarrow> block \<Rightarrow> mrb_vm" where
  "store vm a b = vm\<lparr>heap := (heap vm)[a := Some b]\<rparr>"

text \<open>An access of \<open>n\<close> bytes at offset \<open>off\<close> of a block of \<open>sz\<close> bytes.\<close>

definition in_bounds :: "nat \<Rightarrow> nat \<Rightarrow> nat \<Rightarrow> bool" where
  "in_bounds sz off n = (n = 0 \<or> off + n \<le> sz)"

definition read_bytes :: "u8 list \<Rightarrow> nat \<Rightarrow> nat \<Rightarrow> u8 list option" where
  "read_bytes bs off n =
     (if in_bounds (length bs) off n then Some (take n (drop off bs)) else None)"

definition write_bytes :: "u8 list \<Rightarrow> nat \<Rightarrow> u8 list \<Rightarrow> u8 list option" where
  "write_bytes bs off xs =
     (if in_bounds (length bs) off (length xs)
      then Some (take off bs @ xs @ drop (off + length xs) bs) else None)"

text \<open>\<open>p[k]\<close> read as \<open>uint8_t\<close>, and \<open>p[k] = c\<close>.\<close>

definition peek :: "mrb_vm \<Rightarrow> addr option \<Rightarrow> nat \<Rightarrow> u8 option" where
  "peek vm p k = do {
     bs \<leftarrow> load_bytes vm p;
     if k < length bs then Some (bs ! k) else None }"

definition poke :: "mrb_vm \<Rightarrow> addr option \<Rightarrow> nat \<Rightarrow> u8 \<Rightarrow> mrb_vm option" where
  "poke vm p k c = do {
     a \<leftarrow> p;
     bs \<leftarrow> load_bytes vm p;
     if k < length bs then Some (store vm a (Bytes (bs[k := c]))) else None }"

text \<open>
  \<open>memmove(dst + doff, src + soff, n)\<close>: the bytes are read first, then written, so the
  ranges may overlap.
\<close>

definition memmove ::
  "mrb_vm \<Rightarrow> addr option \<Rightarrow> nat \<Rightarrow> addr option \<Rightarrow> nat \<Rightarrow> nat \<Rightarrow> mrb_vm option" where
  "memmove vm dst doff src soff n = do {
     a \<leftarrow> dst;
     s \<leftarrow> load_bytes vm src;
     xs \<leftarrow> read_bytes s soff n;
     d \<leftarrow> load_bytes vm dst;
     d' \<leftarrow> write_bytes d doff xs;
     Some (store vm a (Bytes d')) }"

text \<open>\<open>memcpy\<close>: as \<open>memmove\<close>, but overlapping ranges are undefined.\<close>

definition memcpy ::
  "mrb_vm \<Rightarrow> addr option \<Rightarrow> nat \<Rightarrow> addr option \<Rightarrow> nat \<Rightarrow> nat \<Rightarrow> mrb_vm option" where
  "memcpy vm dst doff src soff n =
     (if dst = src \<and> 0 < n \<and> doff < soff + n \<and> soff < doff + n then None
      else memmove vm dst doff src soff n)"

text \<open>\<open>strlen\<close>: the offset of the first zero byte; running off the block is undefined.\<close>

fun scan :: "u8 list \<Rightarrow> nat option" where
  "scan [] = None"
| "scan (c # cs) = (if c = 0 then Some 0 else map_option Suc (scan cs))"

definition strlen :: "mrb_vm \<Rightarrow> addr option \<Rightarrow> nat option" where
  "strlen vm p = do { bs \<leftarrow> load_bytes vm p; scan bs }"

subsection \<open>Allocator, console and release\<close>

text \<open>
  Modelled from the spec: \<open>mrbc_alloc\<close>. A granted request yields a new block at a new
  address; its bytes are not initialised.
\<close>

definition mrbc_alloc :: "mrb_vm \<Rightarrow> nat \<Rightarrow> addr option \<times> mrb_vm" where
  "mrbc_alloc vm n =
     (case plan vm of
        [] \<Rightarrow> (None, vm)
      | Refuse # pl \<Rightarrow> (None, vm\<lparr>plan := pl\<rparr>)
      | Grant f m # pl \<Rightarrow>
          (Some (length (heap vm)),
           vm\<lparr>heap := heap vm @ [Some (Bytes (replicate n f))], plan := pl\<rparr>))"

text \<open>
  Modelled from the spec: \<open>mrbc_alloc\<close> in the call
  \<open>(mrb_value *)mrbc_alloc(vm, sizeof(mrb_value))\<close>, the same request for a block that is
  used as one \<open>mrb_value\<close>. Both fields the source reads from a handle cell are written
  before they are read; until then the cell holds \<open>blank\<close>.
\<close>

definition blank :: mrb_value where
  "blank = \<lparr>tt = MRB_TT_EMPTY, i = 0, handle = None, str = None\<rparr>"

definition mrbc_alloc_value :: "mrb_vm \<Rightarrow> addr option \<times> mrb_vm" where
  "mrbc_alloc_value vm =
     (case plan vm of
        [] \<Rightarrow> (None, vm)
      | Refuse # pl \<Rightarrow> (None, vm\<lparr>plan := pl\<rparr>)
      | Grant f m # pl \<Rightarrow>
          (Some (length (heap vm)), vm\<lparr>heap := heap vm @ [Some (Cell blank)], plan := pl\<rparr>))"

text \<open>Modelled from the spec: \<open>mrbc_raw_free\<close>. Freeing what is not a live block is undefined.\<close>

definition mrbc_raw_free :: "mrb_vm \<Rightarrow> addr option \<Rightarrow> mrb_vm option" where
  "mrbc_raw_free vm p = do {
     a \<leftarrow> p;
     _ \<leftarrow> load vm p;
     Some (vm\<lparr>heap := (heap vm)[a := None]\<rparr>) }"

text \<open>
  Modelled from the spec: \<open>mrbc_realloc\<close> ("reallocates the buffer ..., preserving existing
  content up to the minimum of old and new size", the result "possibly relocated"). On
  failure the old block is untouched.
\<close>

definition resize :: "u8 \<Rightarrow> nat \<Rightarrow> u8 list \<Rightarrow> u8 list" where
  "resize f n bs = take n bs @ replicate (n - length bs) f"

definition mrbc_realloc :: "mrb_vm \<Rightarrow> addr option \<Rightarrow> nat \<Rightarrow> (addr option \<times> mrb_vm) option" where
  "mrbc_realloc vm p n = do {
     a \<leftarrow> p;
     bs \<leftarrow> load_bytes vm p;
     Some (case plan vm of
        [] \<Rightarrow> (None, vm)
      | Refuse # pl \<Rightarrow> (None, vm\<lparr>plan := pl\<rparr>)
      | Grant f moved # pl \<Rightarrow>
          if moved
          then (Some (length (heap vm)),
                vm\<lparr>heap := (heap vm)[a := None] @ [Some (Bytes (resize f n bs))], plan := pl\<rparr>)
          else (Some a, vm\<lparr>heap := (heap vm)[a := Some (Bytes (resize f n bs))], plan := pl\<rparr>)) }"

text \<open>Modelled from the spec: \<open>console_print\<close>, the diagnostic side channel.\<close>

definition console_print :: "mrb_vm \<Rightarrow> string \<Rightarrow> mrb_vm" where
  "console_print vm s = vm\<lparr>console := console vm @ [s]\<rparr>"

text \<open>
  Modelled from the spec: \<open>mrbc_release\<close>. Reference counting belongs to the surrounding
  runtime; the call is recorded and changes no block.
\<close>

definition mrbc_release :: "mrb_vm \<Rightarrow> mrb_value \<Rightarrow> mrb_vm" where
  "mrbc_release vm x = vm\<lparr>released := released vm @ [x]\<rparr>"

subsection \<open>String object\<close>

text \<open>
  Modelled from the spec: the macro \<open>MRBC_STRING_CSTR\<close> of c\_string.h (not under src/),
  the buffer pointer kept in the handle cell, \<open>(v)->handle->str\<close>. The constructor and
  the destructor of the source use the same path.
\<close>

definition MRBC_STRING_CSTR :: "mrb_vm \<Rightarrow> mrb_value \<Rightarrow> addr option option" where
  "MRBC_STRING_CSTR vm x = do { h \<leftarrow> load_value vm (handle x); Some (str h) }"

text \<open>\<open>p->tt = t; p->str = s\<close> through a handle pointer.\<close>

definition set_handle :: "mrb_vm \<Rightarrow> addr option \<Rightarrow> (mrb_value \<Rightarrow> mrb_value) \<Rightarrow> mrb_vm option" where
  "set_handle vm p upd = do {
     a \<leftarrow> p;
     c \<leftarrow> load_value vm p;
     Some (store vm a (Cell (upd c))) }"

text \<open>
  \<open>mrbc_string_new(vm, src, len)\<close>. \<open>src\<close> is NULL or a buffer pointer with an offset.
\<close>

definition mrbc_string_new ::
  "mrb_vm \<Rightarrow> (addr option \<times> nat) option \<Rightarrow> cint \<Rightarrow> (mrb_value \<times> mrb_vm) option" where
  "mrbc_string_new vm src len =
     (let val = \<lparr>tt = MRB_TT_STRING, i = 0, handle = None, str = None\<rparr>;
          (h, vm1) = mrbc_alloc_value vm;
          val = val\<lparr>handle := h\<rparr>
      in if h = None then Some (val, vm1)
         else
           let (buf, vm2) = mrbc_alloc vm1 (unat (len + 1))
           in if buf = None
              then do {
                vm3 \<leftarrow> mrbc_raw_free vm2 h;
                Some (val\<lparr>handle := None\<rparr>, vm3) }
              else do {
                vm3 \<leftarrow> set_handle vm2 h (\<lambda>c. c\<lparr>tt := MRB_TT_STRING\<rparr>);
                vm4 \<leftarrow> set_handle vm3 h (\<lambda>c. c\<lparr>str := buf\<rparr>);
                vm5 \<leftarrow> (case src of
                         None \<Rightarrow> poke vm4 buf 0 0
                       | Some (sp, so) \<Rightarrow> do {
                           vm' \<leftarrow> memcpy vm4 buf 0 sp so (unat len);
                           poke vm' buf (unat len) 0 });
                Some (val, vm5) })"

text \<open>\<open>mrbc_string_new_cstr(vm, src)\<close>.\<close>

definition mrbc_string_new_cstr ::
  "mrb_vm \<Rightarrow> addr option \<Rightarrow> (mrb_value \<times> mrb_vm) option" where
  "mrbc_string_new_cstr vm src =
     (case src of
        None \<Rightarrow> mrbc_string_new vm None 0
      | Some a \<Rightarrow> do {
          n \<leftarrow> strlen vm src;
          mrbc_string_new vm (Some (src, 0)) (of_nat n) })"

subsection \<open>Methods\<close>

text \<open>
  Modelled from the spec: the argument and result macros (not under src/). A method
  receives the state, the register window \<open>v\<close> (slot 0 is the receiver, slots 1..N are
  the arguments: \<open>GET_ARG(n)\<close> is \<open>v n\<close>) and \<open>argc\<close>. A result is written into slot 0:
  \<open>SET_RETURN(x)\<close> stores \<open>x\<close>; \<open>SET_NIL_RETURN()\<close> sets the tag to nil;
  \<open>SET_INT_RETURN(n)\<close> sets the tag to fixnum and the payload to \<open>n\<close>.
\<close>

text \<open>\<open>c_string_add\<close>, the method \<open>+\<close>.\<close>

definition c_string_add :: "mrb_vm \<Rightarrow> regs \<Rightarrow> int \<Rightarrow> (regs \<times> mrb_vm) option" where
  "c_string_add vm v argc =
     (let s1 = v 0; s2 = v 1
      in if tt s2 \<noteq> MRB_TT_STRING
         then Some (v, console_print vm ''Not support STRING + Other\<newline>'')
         else do {
           p1 \<leftarrow> MRBC_STRING_CSTR vm s1;
           n1 \<leftarrow> strlen vm p1;
           p2 \<leftarrow> MRBC_STRING_CSTR vm s2;
           n2 \<leftarrow> strlen vm p2;
           let len1 = (of_nat n1 :: cint);
           let len2 = (of_nat n2 :: cint);
           (val, vm1) \<leftarrow> mrbc_string_new vm None (len1 + len2);
           if handle val = None then Some (v, vm1)
           else do {
             h \<leftarrow> load_value vm1 (handle val);
             q1 \<leftarrow> MRBC_STRING_CSTR vm1 s1;
             vm2 \<leftarrow> memcpy vm1 (str h) 0 q1 0 (unat len1);
             h' \<leftarrow> load_value vm2 (handle val);
             q2 \<leftarrow> MRBC_STRING_CSTR vm2 s2;
             vm3 \<leftarrow> memcpy vm2 (str h') (unat len1) q2 0 (unat (len2 + 1));
             Some (v(0 := val), mrbc_release vm3 (v 0)) } })"

text \<open>\<open>c_string_append\<close>, the method \<open><<\<close>. \<open>str[len1] = v2->i\<close> keeps the low byte.\<close>

definition c_string_append :: "mrb_vm \<Rightarrow> regs \<Rightarrow> int \<Rightarrow> (regs \<times> mrb_vm) option" where
  "c_string_append vm v argc =
     (let v2 = v 1
      in do {
        p1 \<leftarrow> MRBC_STRING_CSTR vm (v 0);
        n1 \<leftarrow> strlen vm p1;
        n2 \<leftarrow> (if tt v2 = MRB_TT_STRING
               then do { p2 \<leftarrow> MRBC_STRING_CSTR vm v2; strlen vm p2 }
               else Some 1);
        let len1 = (of_nat n1 :: cint);
        let len2 = (of_nat n2 :: cint);
        (s, vm1) \<leftarrow> mrbc_realloc vm p1 (unat (len1 + len2 + 1));
        if s = None then Some (v, vm1)
        else do {
          vm2 \<leftarrow> (if tt v2 = MRB_TT_STRING
                  then do {
                    q2 \<leftarrow> MRBC_STRING_CSTR vm1 v2;
                    memcpy vm1 s (unat len1) q2 0 (unat (len2 + 1)) }
                  else if tt v2 = MRB_TT_FIXNUM
                  then do {
                    vm' \<leftarrow> poke vm1 s (unat len1) (ucast (i v2));
                    poke vm' s (unat (len1 + 1)) 0 }
                  else Some vm1);
          vm3 \<leftarrow> set_handle vm2 (handle (v 0)) (\<lambda>c. c\<lparr>str := s\<rparr>);
          Some (v, vm3) } })"

text \<open>\<open>c_string_slice\<close>, the method \<open>[]\<close>.\<close>

definition c_string_slice :: "mrb_vm \<Rightarrow> regs \<Rightarrow> int \<Rightarrow> (regs \<times> mrb_vm) option" where
  "c_string_slice vm v argc =
     (let v1 = v 1; v2 = v 2
      in if argc = 1 \<and> tt v1 = MRB_TT_FIXNUM
         then do {
           p \<leftarrow> MRBC_STRING_CSTR vm (v 0);
           n \<leftarrow> strlen vm p;
           let len = (of_nat n :: cint);
           let idx = i v1;
           ch \<leftarrow> (if 0 \<le>s idx
                  then (if idx <s len
                        then do {
                          q \<leftarrow> MRBC_STRING_CSTR vm (v 0);
                          c \<leftarrow> peek vm q (unat idx);
                          Some (ucast c) }
                        else Some (0 :: cint))
                  else (let idx = idx + len
                        in if 0 \<le>s idx
                           then do {
                             q \<leftarrow> MRBC_STRING_CSTR vm (v 0);
                             c \<leftarrow> peek vm q (unat idx);
                             Some (ucast c) }
                           else Some 0));
           if 0 <s ch
           then do {
             (val, vm1) \<leftarrow> mrbc_string_new vm None 1;
             if handle val = None then Some (v, vm1)
             else do {
               h \<leftarrow> load_value vm1 (handle val);
               vm2 \<leftarrow> poke vm1 (str h) 0 (ucast ch);
               h' \<leftarrow> load_value vm2 (handle val);
               vm3 \<leftarrow> poke vm2 (str h') 1 0;
               Some (v(0 := val), mrbc_release vm3 (v 0)) } }
           else Some (v(0 := (v 0)\<lparr>tt := MRB_TT_NIL\<rparr>), mrbc_release vm (v 0)) }
         else if argc = 2 \<and> tt v1 = MRB_TT_FIXNUM \<and> tt v2 = MRB_TT_FIXNUM
         then do {
           p \<leftarrow> MRBC_STRING_CSTR vm (v 0);
           n \<leftarrow> strlen vm p;
           let len = (of_nat n :: cint);
           let idx = (if i v1 <s 0 then i v1 + len else i v1);
           if 0 \<le>s idx
           then (let rlen = (if i v2 <s len - idx then i v2 else len - idx)
                 in if 0 \<le>s rlen
                    then do {
                      q \<leftarrow> MRBC_STRING_CSTR vm (v 0);
                      (val, vm1) \<leftarrow> mrbc_string_new vm (Some (q, unat idx)) rlen;
                      if handle val = None then Some (v, vm1)
                      else Some (v(0 := val), mrbc_release vm1 (v 0)) }
                    else Some (v(0 := (v 0)\<lparr>tt := MRB_TT_NIL\<rparr>), mrbc_release vm (v 0)))
           else Some (v(0 := (v 0)\<lparr>tt := MRB_TT_NIL\<rparr>), mrbc_release vm (v 0)) }
         else Some (v, console_print vm ''Not support such case in String#[].\<newline>''))"

text \<open>
  \<open>c_string_insert\<close>, the method \<open>[]=\<close>. The buffer is reallocated to its final size
  first; the tail is moved inside the reallocated block afterwards.
\<close>

definition c_string_insert :: "mrb_vm \<Rightarrow> regs \<Rightarrow> int \<Rightarrow> (regs \<times> mrb_vm) option" where
  "c_string_insert vm v argc =
     (case (if argc = 2 \<and> tt (v 1) = MRB_TT_FIXNUM \<and> tt (v 2) = MRB_TT_STRING
            then Some (i (v 1), 1, v 2)
            else if argc = 3 \<and> tt (v 1) = MRB_TT_FIXNUM \<and> tt (v 2) = MRB_TT_FIXNUM
                    \<and> tt (v 3) = MRB_TT_STRING
            then Some (i (v 1), i (v 2), v 3)
            else None) of
        None \<Rightarrow> Some (v, console_print vm ''Not support\<newline>'')
      | Some (nth0, len0, val) \<Rightarrow> do {
          p1 \<leftarrow> MRBC_STRING_CSTR vm (v 0);
          n1 \<leftarrow> strlen vm p1;
          p2 \<leftarrow> MRBC_STRING_CSTR vm val;
          n2 \<leftarrow> strlen vm p2;
          let len1 = (of_nat n1 :: cint);
          let len2 = (of_nat n2 :: cint);
          let nth = (if nth0 <s 0 then len1 + nth0 else nth0);
          let len = (if len1 - nth <s len0 then len1 - nth else len0);
          if nth <s 0 \<or> len1 <s nth \<or> len <s 0
          then Some (v, console_print vm ''IndexError\<newline>'')
          else do {
            (s, vm1) \<leftarrow> mrbc_realloc vm p1 (unat (len1 + len2 - len + 1));
            if s = None then Some (v, vm1)
            else do {
              vm2 \<leftarrow> memmove vm1 s (unat nth + unat len2) s (unat nth + unat len)
                       (unat (len1 - nth - len));
              q2 \<leftarrow> MRBC_STRING_CSTR vm2 val;
              vm3 \<leftarrow> memcpy vm2 s (unat nth) q2 0 (unat len2);
              vm4 \<leftarrow> poke vm3 s (unat (len1 + len2 - len)) 0;
              vm5 \<leftarrow> set_handle vm4 (handle (v 0)) (\<lambda>c. c\<lparr>str := s\<rparr>);
              Some (v, vm5) } } })"

text \<open>
  \<open>c_string_ord\<close>, the method \<open>ord\<close>: \<open>int i = MRBC_STRING_CSTR(v)[0]\<close> reads a plain
  \<open>char\<close>. Whether plain \<open>char\<close> is signed is the compiler's choice, the parameter
  \<open>char_signed\<close>.
\<close>

definition c_string_ord :: "bool \<Rightarrow> mrb_vm \<Rightarrow> regs \<Rightarrow> int \<Rightarrow> (regs \<times> mrb_vm) option" where
  "c_string_ord char_signed vm v argc = do {
     p \<leftarrow> MRBC_STRING_CSTR vm (v 0);
     c \<leftarrow> peek vm p 0;
     let n = (if char_signed then scast c else ucast c :: cint);
     Some (v(0 := (v 0)\<lparr>tt := MRB_TT_FIXNUM, i := n\<rparr>), mrbc_release vm (v 0)) }"

subsection \<open>Observing a string\<close>

text \<open>
  The block behind a string value, the length the source recomputes by scanning, and the
  bytes before the terminator.
\<close>

definition buffer :: "mrb_vm \<Rightarrow> mrb_value \<Rightarrow> u8 list option" where
  "buffer vm x = do { p \<leftarrow> MRBC_STRING_CSTR vm x; load_bytes vm p }"

definition string_length :: "mrb_vm \<Rightarrow> mrb_value \<Rightarrow> nat option" where
  "string_length vm x = do { bs \<leftarrow> buffer vm x; scan bs }"

definition contents :: "mrb_vm \<Rightarrow> mrb_value \<Rightarrow> u8 list option" where
  "contents vm x = do { bs \<leftarrow> buffer vm x; n \<leftarrow> scan bs; Some (take n bs) }"

subsection \<open>Example states\<close>

definition ascii :: "string \<Rightarrow> u8 list" where
  "ascii s = map (\<lambda>c. of_nat (of_char c)) s"

definition string_value :: "addr \<Rightarrow> mrb_value" where
  "string_value h = \<lparr>tt = MRB_TT_STRING, i = 0, handle = Some h, str = None\<rparr>"

definition fixnum_value :: "cint \<Rightarrow> mrb_value" where
  "fixnum_value n = \<lparr>tt = MRB_TT_FIXNUM, i = n, handle = None, str = None\<rparr>"

definition nil_value :: mrb_value where
  "nil_value = \<lparr>tt = MRB_TT_NIL, i = 0, handle = None, str = None\<rparr>"

definition handle_cell :: "addr \<Rightarrow> block option" where
  "handle_cell a = Some (Cell \<lparr>tt = MRB_TT_STRING, i = 0, handle = None, str = Some a\<rparr>)"

text \<open>
  A heap with the strings "hello" (handle 0), "XYZ" (handle 2), "foo" (handle 4), "A"
  (handle 6), the empty string (handle 8) and a string whose first byte is 0xE3
  (handle 10).
\<close>

definition example_vm :: "outcome list \<Rightarrow> mrb_vm" where
  "example_vm pl =
     \<lparr>heap = [handle_cell 1, Some (Bytes (ascii ''hello'' @ [0])),
              handle_cell 3, Some (Bytes (ascii ''XYZ'' @ [0])),
              handle_cell 5, Some (Bytes (ascii ''foo'' @ [0])),
              handle_cell 7, Some (Bytes (ascii ''A'' @ [0])),
              handle_cell 9, Some (Bytes [0]),
              handle_cell 11, Some (Bytes [0xE3, 0x81, 0x82, 0])],
      plan = pl, console = [], released = []\<rparr>"

text \<open>A register window: the listed values, nil beyond them.\<close>

definition window :: "mrb_value list \<Rightarrow> regs" where
  "window xs = (\<lambda>n. if n < length xs then xs ! n else nil_value)"

section \<open>Properties\<close>

subsection \<open>Unfolding sets\<close>

lemmas example_defs = window_def fixnum_value_def string_value_def nil_value_def example_vm_def
  handle_cell_def ascii_def

lemmas memory_defs = buffer_def MRBC_STRING_CSTR_def load_value_def load_bytes_def load_def
  strlen_def store_def

lemmas run_defs = c_string_insert_def mrbc_realloc_def memmove_def memcpy_def poke_def
  set_handle_def read_bytes_def write_bytes_def in_bounds_def resize_def console_print_def
  Let_def word_sless_alt word_sle_eq

subsection \<open>Machine integers\<close>

lemma unat_of_nat32: "n < 2 ^ 31 \<Longrightarrow> unat (of_nat n :: cint) = n"
  by (simp add: unat_of_nat)

lemma unat_of_nat32_Suc: "n < 2 ^ 31 \<Longrightarrow> unat (of_nat n + 1 :: cint) = Suc n"
proof -
  assume a: "n < 2 ^ 31"
  have "unat (of_nat (Suc n) :: cint) = Suc n" using a by (simp only: unat_of_nat) simp
  then show ?thesis by (simp add: add.commute)
qed

lemma unat_of_nat32_plus2: "n < 2 ^ 31 \<Longrightarrow> unat (of_nat n + 1 + 1 :: cint) = n + 2"
proof -
  assume a: "n < 2 ^ 31"
  have "unat (of_nat (n + 2) :: cint) = n + 2" using a by (simp only: unat_of_nat) simp
  then show ?thesis by (simp add: add.commute add.left_commute)
qed

lemma unat_2_plus_of_nat32: "n < 2 ^ 31 \<Longrightarrow> unat (2 + of_nat n :: cint) = Suc (Suc n)"
  using unat_of_nat32_plus2 [of n] by (simp add: add.commute add.left_commute)

lemma sint_of_nat32: "n < 2 ^ 31 \<Longrightarrow> sint (of_nat n :: cint) = int n"
  by (simp add: signed_of_nat signed_take_bit_int_eq_self)

lemma sint_range32: "- (2 ^ 31) \<le> sint (w :: cint) \<and> sint w < 2 ^ 31"
  using sint_ge [of w] sint_lt [of w] by simp

lemma sint_add32:
  "- (2 ^ 31) \<le> sint a + sint b \<Longrightarrow> sint a + sint b < 2 ^ 31 \<Longrightarrow>
   sint (a + b :: cint) = sint a + sint b"
  by (simp add: sint_word_ariths signed_take_bit_int_eq_self)

lemma sint_sub32:
  "- (2 ^ 31) \<le> sint a - sint b \<Longrightarrow> sint a - sint b < 2 ^ 31 \<Longrightarrow>
   sint (a - b :: cint) = sint a - sint b"
  by (simp add: sint_word_ariths signed_take_bit_int_eq_self)

lemma unat_sint32: "0 \<le> sint (w :: cint) \<Longrightarrow> unat w = nat (sint w)"
proof -
  assume a: "0 \<le> sint w"
  have "sint w < 2 ^ 31" using sint_lt [of w] by simp
  then have "sint w < 2 ^ 32" by simp
  then have "take_bit 32 (sint w) = sint w" using a by (simp add: take_bit_int_eq_self)
  then have "uint w = sint w" using uint_sint [of w] by simp
  then show ?thesis by (simp only: unat_eq_nat_uint)
qed

lemma sint_ucast_u8: "sint (ucast (c :: u8) :: cint) = uint c"
proof -
  have "uint c < 2 ^ 8" using uint_bounded [of c] by simp
  then have "uint c < 2 ^ 31" by simp
  moreover have "- (2 ^ 31) \<le> uint c"
    by (rule order_trans [of _ 0]) simp_all
  ultimately have "signed_take_bit 31 (uint c) = uint c"
    by (rule signed_take_bit_int_eq_self [rotated])
  then show ?thesis by (simp add: signed_ucast_eq)
qed

lemma ucast_u8_pos: "(0 <s (ucast (c :: u8) :: cint)) = (c \<noteq> 0)"
  by (simp add: word_sless_alt sint_ucast_u8 word_neq_0_conv word_less_alt)

lemma uint_pos_iff: "(0 < uint (c :: u8)) = (c \<noteq> 0)"
  by (simp add: word_neq_0_conv word_less_alt)

lemma ucast_ucast_u8: "(ucast (ucast (c :: u8) :: cint) :: u8) = c"
  by (rule bit_word_eqI) (auto simp add: bit_simps)

lemma uint_ucast_low_byte: "uint (ucast (k :: cint) :: u8) = sint k mod 256"
proof -
  have "uint (ucast k :: u8) = take_bit 8 (uint k)" by (simp add: unsigned_ucast_eq)
  also have "\<dots> = take_bit 8 (take_bit 32 (sint k))" by (simp add: uint_sint)
  also have "\<dots> = take_bit 8 (sint k)" by simp
  finally show ?thesis by (simp add: take_bit_eq_mod)
qed

lemma sint_adjust32:
  assumes "n < 2 ^ 31" "sint (k :: cint) < 0"
  shows "sint (k + of_nat n) = sint k + int n"
proof -
  have "- (2 ^ 31) \<le> sint k + sint (of_nat n :: cint)"
    using assms sint_range32 [of k] by (simp add: sint_of_nat32)
  moreover have "sint k + sint (of_nat n :: cint) < 2 ^ 31"
    using assms by (simp add: sint_of_nat32)
  ultimately show ?thesis using assms(1) by (simp add: sint_add32 sint_of_nat32)
qed

lemma slice_idx32:
  assumes "n < 2 ^ 31"
  shows "sint (if k <s 0 then k + of_nat n else k :: cint)
           = (if sint k < 0 then sint k + int n else sint k)"
  using assms by (simp add: word_sless_alt sint_adjust32)

lemma slice_len32:
  assumes "n < 2 ^ 31" "0 \<le> sint (idx :: cint)"
  shows "sint (if s <s of_nat n - idx then s else of_nat n - idx)
           = min (sint s) (int n - sint idx)"
proof -
  have "sint (of_nat n - idx) = int n - sint idx"
    using assms sint_range32 [of idx] by (simp add: sint_sub32 sint_of_nat32)
  then show ?thesis by (simp add: word_sless_alt min_def)
qed

lemma insert_nth32:
  assumes "n < 2 ^ 31"
  shows "sint (if k <s 0 then of_nat n + k else k :: cint)
           = (if sint k < 0 then int n + sint k else sint k)"
  using assms sint_adjust32 [of n k] by (simp add: word_sless_alt add.commute)

lemma insert_len32:
  assumes "n < 2 ^ 31" "0 \<le> sint (nth1 :: cint)"
  shows "sint (if of_nat n - nth1 <s s then of_nat n - nth1 else s)
           = min (sint s) (int n - sint nth1)"
proof -
  have "sint (of_nat n - nth1) = int n - sint nth1"
    using assms sint_range32 [of nth1] by (simp add: sint_sub32 sint_of_nat32)
  then show ?thesis by (simp add: word_sless_alt min_def)
qed

text \<open>The test of the method against the adjusted index and the clamped span.\<close>

lemma insert_check32:
  assumes n: "n < 2 ^ 31"
    and nth1: "nth1 = (if nth0 <s 0 then of_nat n + nth0 else nth0 :: cint)"
    and len: "len = (if of_nat n - nth1 <s len0 then of_nat n - nth1 else len0)"
    and j: "j = (if sint nth0 < 0 then int n + sint nth0 else sint nth0)"
    and s: "s = min (sint len0) (int n - j)"
  shows "(nth1 <s 0 \<or> of_nat n <s nth1 \<or> len <s 0) = (j < 0 \<or> int n < j \<or> s < 0)"
proof -
  have sj: "sint nth1 = j" unfolding nth1 j using n by (rule insert_nth32)
  show ?thesis
  proof (cases "j < 0")
    case True
    with sj show ?thesis by (simp add: word_sless_alt)
  next
    case False
    with sj have "0 \<le> sint nth1" by simp
    then have "sint len = s" unfolding len s sj [symmetric] using n by (intro insert_len32)
    with sj n show ?thesis by (simp add: word_sless_alt sint_of_nat32)
  qed
qed

lemma insert_sizes32:
  assumes b: "n1 + n2 + 1 < 2 ^ 31"
    and j: "sint (nth1 :: cint) = int J"
    and s: "sint (len :: cint) = int S"
    and le: "J + S \<le> n1"
  shows "unat nth1 = J" "unat len = S" "unat (of_nat n2 :: cint) = n2"
    "unat (of_nat n1 - nth1 - len) = n1 - J - S"
    "unat (of_nat n1 + of_nat n2 - len + 1) = n1 + n2 - S + 1"
    "unat (of_nat n1 + of_nat n2 - len) = n1 + n2 - S"
proof -
  have n1: "n1 < 2 ^ 31" and n2: "n2 < 2 ^ 31" using b by simp_all
  show "unat nth1 = J" using j by (simp add: unat_sint32)
  show "unat len = S" using s by (simp add: unat_sint32)
  show "unat (of_nat n2 :: cint) = n2" using n2 by (rule unat_of_nat32)
  have s1: "sint (of_nat n1 :: cint) = int n1" using n1 by (rule sint_of_nat32)
  have s2: "sint (of_nat n2 :: cint) = int n2" using n2 by (rule sint_of_nat32)
  have d1: "sint (of_nat n1 - nth1) = int n1 - int J"
    using n1 le by (simp add: sint_sub32 s1 j)
  have d2: "sint (of_nat n1 - nth1 - len) = int n1 - int J - int S"
    using n1 le by (simp add: sint_sub32 d1 s)
  then show "unat (of_nat n1 - nth1 - len) = n1 - J - S"
    using le by (simp add: unat_sint32)
  have a1: "sint (of_nat n1 + of_nat n2 :: cint) = int n1 + int n2"
    using b by (simp add: sint_add32 s1 s2)
  have a2: "sint (of_nat n1 + of_nat n2 - len) = int n1 + int n2 - int S"
    using b le by (simp add: sint_sub32 a1 s)
  then show "unat (of_nat n1 + of_nat n2 - len) = n1 + n2 - S"
    using le by (simp add: unat_sint32)
  have "sint (of_nat n1 + of_nat n2 - len + 1) = int n1 + int n2 - int S + 1"
    using b le by (simp add: sint_add32 a2)
  then show "unat (of_nat n1 + of_nat n2 - len + 1) = n1 + n2 - S + 1"
    using le by (simp add: unat_sint32)
qed

subsection \<open>Scanning and resizing byte lists\<close>

lemma scan_append_zero: "0 \<notin> set xs \<Longrightarrow> scan (xs @ 0 # ys) = Some (length xs)"
  by (induction xs) auto

lemma scan_SomeD:
  "scan bs = Some n \<Longrightarrow> \<exists>xs ys. bs = xs @ 0 # ys \<and> length xs = n \<and> 0 \<notin> set xs"
proof (induction bs arbitrary: n)
  case Nil
  then show ?case by simp
next
  case (Cons c cs)
  show ?case
  proof (cases "c = 0")
    case True
    with Cons.prems show ?thesis by auto
  next
    case False
    with Cons.prems obtain k where k: "scan cs = Some k" "n = Suc k" by auto
    from Cons.IH [OF k(1)] obtain xs ys where "cs = xs @ 0 # ys" "length xs = k" "0 \<notin> set xs"
      by blast
    with False k(2) have "c # cs = (c # xs) @ 0 # ys \<and> length (c # xs) = n \<and> 0 \<notin> set (c # xs)"
      by simp
    then show ?thesis by blast
  qed
qed

lemma scan_less: "scan bs = Some n \<Longrightarrow> n < length bs"
  by (drule scan_SomeD) auto

lemma scan_nth_zero: "scan bs = Some n \<Longrightarrow> bs ! n = 0"
  by (drule scan_SomeD) (auto simp: nth_append)

lemma scan_nth_nonzero: "scan bs = Some n \<Longrightarrow> k < n \<Longrightarrow> bs ! k \<noteq> 0"
proof -
  assume "scan bs = Some n" and k: "k < n"
  then obtain xs ys where x: "bs = xs @ 0 # ys" "length xs = n" "0 \<notin> set xs"
    using scan_SomeD by blast
  from k x(2) have "xs ! k \<in> set xs" by simp
  with x(3) have "xs ! k \<noteq> 0" by metis
  with k x(1,2) show ?thesis by (simp add: nth_append)
qed

lemma slice_inside:
  assumes "scan bs = Some n" "j + r \<le> n"
  shows "0 \<notin> set (take r (drop j bs))"
proof -
  from scan_SomeD [OF assms(1)] obtain xs ys where
    x: "bs = xs @ 0 # ys" "length xs = n" "0 \<notin> set xs" by blast
  with assms(2) have "take r (drop j bs) = take r (drop j xs)" by simp
  moreover have "set (take r (drop j xs)) \<subseteq> set xs"
    by (meson set_take_subset set_drop_subset subset_trans)
  ultimately show ?thesis using x(3) by auto
qed

lemma length_resize: "length (resize f m bs) = m"
  by (simp add: resize_def)

lemma take_resize: "k \<le> m \<Longrightarrow> k \<le> length bs \<Longrightarrow> take k (resize f m bs) = take k bs"
  by (simp add: resize_def min_def)

lemma take_zero_Cons: "n < m \<Longrightarrow> take (m - n) (0 # ys) = 0 # take (m - Suc n) ys"
proof -
  assume "n < m"
  then have "m - n = Suc (m - Suc n)" by simp
  then show ?thesis by simp
qed

lemma scan_resize: "scan bs = Some n \<Longrightarrow> n < m \<Longrightarrow> scan (resize f m bs) = Some n"
  by (drule scan_SomeD) (auto simp: resize_def scan_append_zero take_zero_Cons)

lemma take_scan_resize:
  "scan bs = Some n \<Longrightarrow> n < m \<Longrightarrow> take n (resize f m bs) = take n bs"
  by (drule scan_SomeD) (auto simp: resize_def)

lemma replicate_2: "replicate 2 f = [f, f]"
  by (simp add: numeral_2_eq_2)

lemma drop_fresh: "drop n (f # replicate n f) = [f]"
proof -
  have "drop n (replicate (Suc n) f) = replicate (Suc n - n) f" by (rule drop_replicate)
  then show ?thesis by simp
qed

lemma terminate_copy: "length xs = n \<Longrightarrow> (xs @ drop n (f # replicate n f))[n := c] = xs @ [c]"
  by (simp add: drop_fresh list_update_append)

lemma append_byte:
  assumes "n < length bs"
  shows "(resize f (Suc (Suc n)) bs)[n := c, Suc n := 0] = take n bs @ [c, 0]"
proof (rule nth_equalityI)
  show "length ((resize f (Suc (Suc n)) bs)[n := c, Suc n := 0]) = length (take n bs @ [c, 0])"
    using assms by (simp add: length_resize)
next
  fix k assume "k < length ((resize f (Suc (Suc n)) bs)[n := c, Suc n := 0])"
  then have k: "k < Suc (Suc n)" by (simp add: length_resize)
  then consider "k < n" | "k = n" | "k = Suc n" by linarith
  then show "(resize f (Suc (Suc n)) bs)[n := c, Suc n := 0] ! k = (take n bs @ [c, 0]) ! k"
  proof cases
    case 1
    with assms show ?thesis by (simp add: nth_append resize_def)
  next
    case 2
    with assms show ?thesis by (simp add: nth_append length_resize)
  next
    case 3
    with assms show ?thesis by (simp add: nth_append length_resize)
  qed
qed

text \<open>
  The bytes of a block of \<open>n1 + n2 - S + 1\<close> bytes after the tail was moved, the
  replacement written and the terminator stored.
\<close>

lemma splice_list:
  assumes a: "J + S \<le> n1" "n1 < length bs" "S \<le> n2 + 1 \<or> J + S = n1"
  shows "read_bytes (resize f (n1 + n2 - S + 1) bs) (J + S) (n1 - J - S)
           = Some (take (n1 - J - S) (drop (J + S) bs))"
    and "\<exists>B1. write_bytes (resize f (n1 + n2 - S + 1) bs) (J + n2) (take (n1 - J - S) (drop (J + S) bs))
           = Some B1 \<and>
         (\<exists>B2. write_bytes B1 J (take n2 rs') = Some B2 \<and>
            (length rs' = n2 \<longrightarrow> n1 + n2 - S < length B2 \<and>
             B2[n1 + n2 - S := 0]
               = take J bs @ rs' @ take (n1 - J - S) (drop (J + S) bs) @ [0]))"
proof -
  define N where "N = n1 + n2 - S + 1"
  define B0 where "B0 = resize f N bs"
  define xs where "xs = take (n1 - J - S) (drop (J + S) bs)"
  have lx: "length xs = n1 - J - S" using a by (simp add: xs_def)
  have l0: "length B0 = N" by (simp add: B0_def length_resize)
  have N: "J + n2 + (n1 - J - S) + 1 = N" using a by (simp add: N_def)
  have r: "read_bytes B0 (J + S) (n1 - J - S) = Some xs"
  proof (cases "J + S = n1")
    case True
    then show ?thesis by (simp add: read_bytes_def in_bounds_def xs_def)
  next
    case False
    with a have s: "S \<le> n2 + 1" by simp
    with a have nN: "n1 \<le> N" by (simp add: N_def)
    then have "take n1 B0 = take n1 bs" using a by (simp add: B0_def take_resize)
    then have "take (n1 - J - S) (drop (J + S) B0) = xs"
      unfolding xs_def
      using a by (metis (no_types, lifting) add.commute diff_diff_left le_add_diff_inverse take_drop)
    moreover have "J + S + (n1 - J - S) \<le> length B0" using a nN by (simp add: l0)
    ultimately show ?thesis by (simp add: read_bytes_def in_bounds_def)
  qed
  define B1 where "B1 = take (J + n2) B0 @ xs @ drop (J + n2 + length xs) B0"
  have w1: "write_bytes B0 (J + n2) xs = Some B1"
    using N by (simp add: write_bytes_def in_bounds_def l0 lx B1_def)
  have l1: "length B1 = N" using N by (simp add: B1_def l0 lx)
  have "J \<le> length bs" "J \<le> N" using a N by simp_all
  then have "take J B0 = take J bs" by (simp add: B0_def take_resize)
  then have tj: "take J B1 = take J bs" using N by (simp add: B1_def l0)
  have "length (drop (J + n2 + length xs) B0) = 1" using N by (simp add: l0 lx)
  then obtain z where z: "drop (J + n2 + length xs) B0 = [z]"
    by (metis One_nat_def length_0_conv length_Suc_conv)
  have dj: "drop (J + n2) B1 = xs @ [z]" using N z by (simp add: B1_def l0)
  define B2 where "B2 = take J B1 @ take n2 rs' @ drop (J + length (take n2 rs')) B1"
  have "J + length (take n2 rs') \<le> length B1" using N by (simp add: l1)
  then have w2: "write_bytes B1 J (take n2 rs') = Some B2"
    by (simp add: write_bytes_def in_bounds_def B2_def)
  have fin: "length rs' = n2 \<longrightarrow> n1 + n2 - S < length B2 \<and>
             B2[n1 + n2 - S := 0] = take J bs @ rs' @ xs @ [0]"
  proof
    assume r: "length rs' = n2"
    have b2: "B2 = take J bs @ rs' @ xs @ [z]" using r tj dj by (simp add: B2_def)
    have e: "length (take J bs @ rs' @ xs) = n1 + n2 - S" using a r by (simp add: lx)
    then have "(take J bs @ rs' @ xs @ [z])[n1 + n2 - S := 0] = take J bs @ rs' @ xs @ [0]"
      by (metis append.assoc list_update_length)
    moreover have "n1 + n2 - S < length (take J bs @ rs' @ xs @ [z])"
      using e by simp
    ultimately show "n1 + n2 - S < length B2 \<and> B2[n1 + n2 - S := 0] = take J bs @ rs' @ xs @ [0]"
      unfolding b2 by blast
  qed
  from r show "read_bytes (resize f (n1 + n2 - S + 1) bs) (J + S) (n1 - J - S)
           = Some (take (n1 - J - S) (drop (J + S) bs))"
    unfolding B0_def N_def xs_def .
  from w1 w2 fin
  have "\<exists>B1. write_bytes B0 (J + n2) xs = Some B1 \<and>
         (\<exists>B2. write_bytes B1 J (take n2 rs') = Some B2 \<and>
            (length rs' = n2 \<longrightarrow> n1 + n2 - S < length B2 \<and>
             B2[n1 + n2 - S := 0] = take J bs @ rs' @ xs @ [0]))"
    by blast
  then show "\<exists>B1. write_bytes (resize f (n1 + n2 - S + 1) bs) (J + n2) (take (n1 - J - S) (drop (J + S) bs))
           = Some B1 \<and>
         (\<exists>B2. write_bytes B1 J (take n2 rs') = Some B2 \<and>
            (length rs' = n2 \<longrightarrow> n1 + n2 - S < length B2 \<and>
             B2[n1 + n2 - S := 0]
               = take J bs @ rs' @ take (n1 - J - S) (drop (J + S) bs) @ [0]))"
    unfolding B0_def N_def xs_def .
qed

subsection \<open>Blocks of the heap\<close>

lemma load_heap_eq: "heap vm' = heap vm \<Longrightarrow> load vm' = load vm"
  by (rule ext) (simp add: load_def split: option.splits)

lemma buffer_heap_eq: "heap vm' = heap vm \<Longrightarrow> buffer vm' x = buffer vm x"
  by (simp add: buffer_def MRBC_STRING_CSTR_def load_value_def load_bytes_def
      load_heap_eq [of vm' vm])

lemma load_bytesD:
  "load_bytes vm p = Some bs \<Longrightarrow>
   \<exists>a. p = Some a \<and> a < length (heap vm) \<and> heap vm ! a = Some (Bytes bs)"
  by (auto simp: load_bytes_def load_def split: option.splits block.splits if_splits)

lemma bufferD:
  "buffer vm x = Some bs \<Longrightarrow>
   \<exists>h c a. handle x = Some h \<and> h < length (heap vm) \<and> heap vm ! h = Some (Cell c)
     \<and> str c = Some a \<and> a < length (heap vm) \<and> heap vm ! a = Some (Bytes bs)"
  by (auto simp: buffer_def MRBC_STRING_CSTR_def load_value_def load_bytes_def load_def
      split: Option.bind_splits option.splits block.splits if_splits)

lemma buffer_ptrD:
  "buffer vm x = Some bs \<Longrightarrow> \<exists>p. MRBC_STRING_CSTR vm x = Some p \<and> load_bytes vm p = Some bs"
  by (auto simp: buffer_def split: Option.bind_splits)

lemma console_realloc: "mrbc_realloc vm p n = Some (s, vm1) \<Longrightarrow> console vm1 = console vm"
  by (auto simp: mrbc_realloc_def split: Option.bind_splits list.splits outcome.splits if_splits)

lemma console_memmove: "memmove vm d off s soff n = Some vm' \<Longrightarrow> console vm' = console vm"
  by (auto simp: memmove_def store_def split: Option.bind_splits)

lemma console_memcpy: "memcpy vm d off s soff n = Some vm' \<Longrightarrow> console vm' = console vm"
  by (auto simp: memcpy_def dest: console_memmove split: if_splits)

lemma console_poke: "poke vm p k c = Some vm' \<Longrightarrow> console vm' = console vm"
  by (auto simp: poke_def store_def split: Option.bind_splits if_splits)

lemma console_set_handle: "set_handle vm p upd = Some vm' \<Longrightarrow> console vm' = console vm"
  by (auto simp: set_handle_def store_def split: Option.bind_splits)

subsection \<open>Concatenation with a right operand that is not a string\<close>

text \<open>
  C9: when the right operand of \<open>+\<close> is not a string, \<open>c_string_add\<close> returns with the
  registers and every block of the heap unchanged, so the left operand's buffer is
  byte for byte what it was; only the diagnostic line is added to the console.
\<close>

theorem c_string_add_not_string:
  "tt (v 1) \<noteq> MRB_TT_STRING \<Longrightarrow>
   \<exists>vm'. c_string_add vm v argc = Some (v, vm') \<and> heap vm' = heap vm
     \<and> buffer vm' (v 0) = buffer vm (v 0)
     \<and> console vm' = console vm @ [''Not support STRING + Other\<newline>'']"
  by (simp add: c_string_add_def console_print_def
      buffer_heap_eq [of "vm\<lparr>console := console vm @ [''Not support STRING + Other\<newline>'']\<rparr>" vm])

theorem c_string_add_not_string_witness:
  "tt (window [string_value 4, fixnum_value 1] 1) \<noteq> MRB_TT_STRING \<and>
   buffer (example_vm []) (window [string_value 4, fixnum_value 1] 0) = Some (ascii ''foo'' @ [0]) \<and>
   (\<exists>vm'. c_string_add (example_vm []) (window [string_value 4, fixnum_value 1]) 1
            = Some (window [string_value 4, fixnum_value 1], vm')
      \<and> heap vm' = heap (example_vm [])
      \<and> buffer vm' (window [string_value 4, fixnum_value 1] 0)
          = buffer (example_vm []) (window [string_value 4, fixnum_value 1] 0)
      \<and> console vm' = console (example_vm []) @ [''Not support STRING + Other\<newline>''])"
proof -
  have t: "tt (window [string_value 4, fixnum_value 1] 1) \<noteq> MRB_TT_STRING"
    by (simp add: example_defs)
  have b: "buffer (example_vm []) (window [string_value 4, fixnum_value 1] 0)
             = Some (ascii ''foo'' @ [0])"
    by (simp add: example_defs memory_defs)
  from t b c_string_add_not_string [of "window [string_value 4, fixnum_value 1]" "example_vm []" 1]
  show ?thesis by blast
qed

subsection \<open>Constructor: allocation failure\<close>

text \<open>
  C7: when the handle allocation is refused, \<open>mrbc_string_new\<close> returns the value whose
  handle is NULL and the heap is unchanged. When the handle is granted and the buffer is
  refused, it returns the same value and the handle block has been freed again: every
  address holds after the call what it held before, so no handle is leaked.
\<close>

theorem mrbc_string_new_enomem:
  "(plan vm = [] \<or> (\<exists>pl. plan vm = Refuse # pl) \<longrightarrow>
      (\<exists>vm'. mrbc_string_new vm src len
               = Some (\<lparr>tt = MRB_TT_STRING, i = 0, handle = None, str = None\<rparr>, vm')
         \<and> heap vm' = heap vm)) \<and>
   ((\<exists>f m. plan vm = [Grant f m]) \<or> (\<exists>f m pl. plan vm = Grant f m # Refuse # pl) \<longrightarrow>
      (\<exists>vm'. mrbc_string_new vm src len
               = Some (\<lparr>tt = MRB_TT_STRING, i = 0, handle = None, str = None\<rparr>, vm')
         \<and> (\<forall>p. load vm' p = load vm p)))"
  by (auto simp: mrbc_string_new_def mrbc_alloc_value_def mrbc_alloc_def mrbc_raw_free_def
      load_def nth_append split: option.splits)

theorem mrbc_string_new_enomem_witness:
  "(plan (example_vm [Refuse]) = [] \<or> (\<exists>pl. plan (example_vm [Refuse]) = Refuse # pl)) \<and>
   (\<exists>vm'. mrbc_string_new (example_vm [Refuse]) None 3
            = Some (\<lparr>tt = MRB_TT_STRING, i = 0, handle = None, str = None\<rparr>, vm')
      \<and> heap vm' = heap (example_vm [Refuse])) \<and>
   ((\<exists>f m. plan (example_vm [Grant 0 False, Refuse]) = [Grant f m])
      \<or> (\<exists>f m pl. plan (example_vm [Grant 0 False, Refuse]) = Grant f m # Refuse # pl)) \<and>
   (\<exists>vm'. mrbc_string_new (example_vm [Grant 0 False, Refuse]) None 3
            = Some (\<lparr>tt = MRB_TT_STRING, i = 0, handle = None, str = None\<rparr>, vm')
      \<and> (\<forall>p. load vm' p = load (example_vm [Grant 0 False, Refuse]) p))"
proof -
  have a: "plan (example_vm [Refuse]) = [] \<or> (\<exists>pl. plan (example_vm [Refuse]) = Refuse # pl)"
    by (simp add: example_vm_def)
  have b: "(\<exists>f m. plan (example_vm [Grant 0 False, Refuse]) = [Grant f m])
      \<or> (\<exists>f m pl. plan (example_vm [Grant 0 False, Refuse]) = Grant f m # Refuse # pl)"
    by (auto simp: example_vm_def)
  from a b mrbc_string_new_enomem [of "example_vm [Refuse]" None 3]
    mrbc_string_new_enomem [of "example_vm [Grant 0 False, Refuse]" None 3]
  show ?thesis by blast
qed

subsection \<open>Constructor: success\<close>

lemma mrbc_string_new_copy:
  assumes pl: "plan vm = Grant f1 m1 # Grant f2 m2 # pl"
    and n: "n < 2 ^ 31"
    and s: "load_bytes vm sp = Some s"
    and b: "so + n \<le> length s"
  shows "\<exists>vm'. mrbc_string_new vm (Some (sp, so)) (of_nat n)
            = Some (\<lparr>tt = MRB_TT_STRING, i = 0, handle = Some (length (heap vm)), str = None\<rparr>, vm')
          \<and> buffer vm' \<lparr>tt = MRB_TT_STRING, i = 0, handle = Some (length (heap vm)), str = None\<rparr>
              = Some (take n (drop so s) @ [0])"
proof -
  from load_bytesD [OF s] obtain a where a: "sp = Some a" "a < length (heap vm)" "heap vm ! a = Some (Bytes s)"
    by blast
  show ?thesis
    using pl n b a
    by (simp add: mrbc_string_new_def mrbc_alloc_value_def mrbc_alloc_def set_handle_def
        memcpy_def memmove_def poke_def read_bytes_def write_bytes_def in_bounds_def
        memory_defs nth_append unat_of_nat32 unat_of_nat32_Suc Let_def terminate_copy)
qed

lemma mrbc_string_new_empty:
  assumes pl: "plan vm = Grant f1 m1 # Grant f2 m2 # pl"
    and n: "n < 2 ^ 31"
  shows "\<exists>vm'. mrbc_string_new vm None (of_nat n)
            = Some (\<lparr>tt = MRB_TT_STRING, i = 0, handle = Some (length (heap vm)), str = None\<rparr>, vm')
          \<and> buffer vm' \<lparr>tt = MRB_TT_STRING, i = 0, handle = Some (length (heap vm)), str = None\<rparr>
              = Some (0 # replicate n f2)"
    using pl n
    by (simp add: mrbc_string_new_def mrbc_alloc_value_def mrbc_alloc_def set_handle_def
        poke_def memory_defs nth_append unat_of_nat32 unat_of_nat32_Suc Let_def)

text \<open>
  C6: with both allocations granted and \<open>n\<close> a length that fits a C \<open>int\<close>, the
  constructor called on \<open>n\<close> readable source bytes \<open>b\<close> returns a string value on a new
  handle whose buffer is \<open>b\<close> followed by the terminator at offset \<open>n\<close> (and, when \<open>b\<close>
  has no zero byte, whose scanned length is \<open>n\<close>); called with a NULL source it returns
  the empty string in a buffer of \<open>n + 1\<close> bytes.
\<close>

theorem mrbc_string_new_success:
  assumes pl: "plan vm = Grant f1 m1 # Grant f2 m2 # pl"
    and n: "n < 2 ^ 31"
  shows "(load_bytes vm sp = Some s \<and> so + n \<le> length s \<and> b = take n (drop so s) \<longrightarrow>
            (\<exists>x vm'. mrbc_string_new vm (Some (sp, so)) (of_nat n) = Some (x, vm')
               \<and> tt x = MRB_TT_STRING \<and> handle x \<noteq> None \<and> load vm (handle x) = None
               \<and> length b = n \<and> buffer vm' x = Some (b @ [0])
               \<and> (0 \<notin> set b \<longrightarrow> string_length vm' x = Some n \<and> contents vm' x = Some b)))
       \<and> (\<exists>x vm'. mrbc_string_new vm None (of_nat n) = Some (x, vm')
               \<and> tt x = MRB_TT_STRING \<and> handle x \<noteq> None \<and> load vm (handle x) = None
               \<and> buffer vm' x = Some (0 # replicate n f2)
               \<and> length (0 # replicate n f2) = n + 1
               \<and> string_length vm' x = Some 0 \<and> contents vm' x = Some [])"
proof (intro conjI impI)
  assume h: "load_bytes vm sp = Some s \<and> so + n \<le> length s \<and> b = take n (drop so s)"
  then have s: "load_bytes vm sp = Some s" and le: "so + n \<le> length s"
    and b: "b = take n (drop so s)" by simp_all
  from le b have len: "length b = n" by simp
  from mrbc_string_new_copy [OF pl n s le] obtain vm' where
    r: "mrbc_string_new vm (Some (sp, so)) (of_nat n)
          = Some (\<lparr>tt = MRB_TT_STRING, i = 0, handle = Some (length (heap vm)), str = None\<rparr>, vm')"
    and bf: "buffer vm' \<lparr>tt = MRB_TT_STRING, i = 0, handle = Some (length (heap vm)), str = None\<rparr>
          = Some (take n (drop so s) @ [0])"
    by blast
  show "\<exists>x vm'. mrbc_string_new vm (Some (sp, so)) (of_nat n) = Some (x, vm')
               \<and> tt x = MRB_TT_STRING \<and> handle x \<noteq> None \<and> load vm (handle x) = None
               \<and> length b = n \<and> buffer vm' x = Some (b @ [0])
               \<and> (0 \<notin> set b \<longrightarrow> string_length vm' x = Some n \<and> contents vm' x = Some b)"
    using r bf b len
    by (intro exI [of _ "\<lparr>tt = MRB_TT_STRING, i = 0, handle = Some (length (heap vm)), str = None\<rparr>"]
        exI [of _ vm'])
      (simp add: string_length_def contents_def load_def scan_append_zero)
next
  from mrbc_string_new_empty [OF pl n] obtain vm' where
    r: "mrbc_string_new vm None (of_nat n)
          = Some (\<lparr>tt = MRB_TT_STRING, i = 0, handle = Some (length (heap vm)), str = None\<rparr>, vm')"
    and bf: "buffer vm' \<lparr>tt = MRB_TT_STRING, i = 0, handle = Some (length (heap vm)), str = None\<rparr>
          = Some (0 # replicate n f2)"
    by blast
  show "\<exists>x vm'. mrbc_string_new vm None (of_nat n) = Some (x, vm')
               \<and> tt x = MRB_TT_STRING \<and> handle x \<noteq> None \<and> load vm (handle x) = None
               \<and> buffer vm' x = Some (0 # replicate n f2)
               \<and> length (0 # replicate n f2) = n + 1
               \<and> string_length vm' x = Some 0 \<and> contents vm' x = Some []"
    using r bf
    by (intro exI [of _ "\<lparr>tt = MRB_TT_STRING, i = 0, handle = Some (length (heap vm)), str = None\<rparr>"]
        exI [of _ vm'])
      (simp add: string_length_def contents_def load_def)
qed

theorem mrbc_string_new_success_witness:
  "plan (example_vm [Grant 1 False, Grant 2 False]) = Grant 1 False # Grant 2 False # [] \<and>
   (5 :: nat) < 2 ^ 31 \<and>
   (load_bytes (example_vm [Grant 1 False, Grant 2 False]) (Some 1) = Some (ascii ''hello'' @ [0])
      \<and> 0 + 5 \<le> length (ascii ''hello'' @ [0])
      \<and> ascii ''hello'' = take 5 (drop 0 (ascii ''hello'' @ [0]))) \<and>
   0 \<notin> set (ascii ''hello'') \<and>
   (\<exists>x vm'. mrbc_string_new (example_vm [Grant 1 False, Grant 2 False]) (Some (Some 1, 0)) 5
               = Some (x, vm')
      \<and> buffer vm' x = Some (ascii ''hello'' @ [0]) \<and> string_length vm' x = Some 5) \<and>
   (\<exists>x vm'. mrbc_string_new (example_vm [Grant 1 False, Grant 2 False]) None 5 = Some (x, vm')
      \<and> buffer vm' x = Some (0 # replicate 5 2) \<and> string_length vm' x = Some 0)"
proof -
  have p: "plan (example_vm [Grant 1 False, Grant 2 False]) = Grant 1 False # Grant 2 False # []"
    by (simp add: example_vm_def)
  have n: "(5 :: nat) < 2 ^ 31" by simp
  have s: "load_bytes (example_vm [Grant 1 False, Grant 2 False]) (Some 1) = Some (ascii ''hello'' @ [0])
      \<and> 0 + 5 \<le> length (ascii ''hello'' @ [0])
      \<and> ascii ''hello'' = take 5 (drop 0 (ascii ''hello'' @ [0]))"
    by (simp add: example_defs memory_defs)
  have z: "0 \<notin> set (ascii ''hello'')" by (simp add: ascii_def)
  from mrbc_string_new_success [OF p n, of "Some 1" "ascii ''hello'' @ [0]" 0 "ascii ''hello''"] s z
  have "(\<exists>x vm'. mrbc_string_new (example_vm [Grant 1 False, Grant 2 False]) (Some (Some 1, 0)) (of_nat 5)
               = Some (x, vm')
      \<and> buffer vm' x = Some (ascii ''hello'' @ [0]) \<and> string_length vm' x = Some 5) \<and>
   (\<exists>x vm'. mrbc_string_new (example_vm [Grant 1 False, Grant 2 False]) None (of_nat 5) = Some (x, vm')
      \<and> buffer vm' x = Some (0 # replicate 5 2) \<and> string_length vm' x = Some 0)"
    by blast
  with p n s z show ?thesis by simp
qed

text \<open>
  \<open>mrbc_string_new_cstr\<close> on a terminated source: the new string has the scanned length
  of the source.
\<close>

lemma mrbc_string_new_cstr_length:
  assumes pl: "plan vm = Grant f1 m1 # Grant f2 m2 # pl"
    and s: "load_bytes vm (Some a) = Some s"
    and l: "scan s = Some n" "n < 2 ^ 31"
  shows "\<exists>x vm'. mrbc_string_new_cstr vm (Some a) = Some (x, vm')
           \<and> buffer vm' x = Some (take n s @ [0]) \<and> string_length vm' x = Some n"
proof -
  have le: "0 + n \<le> length s" using scan_less [OF l(1)] by simp
  from mrbc_string_new_copy [OF pl l(2) s le] obtain vm' where
    r: "mrbc_string_new vm (Some (Some a, 0)) (of_nat n)
          = Some (\<lparr>tt = MRB_TT_STRING, i = 0, handle = Some (length (heap vm)), str = None\<rparr>, vm')"
    and b: "buffer vm' \<lparr>tt = MRB_TT_STRING, i = 0, handle = Some (length (heap vm)), str = None\<rparr>
          = Some (take n (drop 0 s) @ [0])"
    by blast
  have nz: "0 \<notin> set (take n (drop 0 s))" by (rule slice_inside [OF l(1)]) simp
  have ln: "length (take n s) = n" using le by simp
  have "mrbc_string_new_cstr vm (Some a)
          = Some (\<lparr>tt = MRB_TT_STRING, i = 0, handle = Some (length (heap vm)), str = None\<rparr>, vm')"
    using s l(1) r by (simp add: mrbc_string_new_cstr_def strlen_def)
  moreover have "string_length vm' \<lparr>tt = MRB_TT_STRING, i = 0, handle = Some (length (heap vm)), str = None\<rparr>
          = Some n"
    using b nz ln scan_append_zero [of "take n s" "[]"] by (simp add: string_length_def)
  ultimately show ?thesis using b by simp
qed

subsection \<open>Byte code of the first character\<close>

lemma c_string_ord_unsigned_char:
  assumes "buffer vm (v 0) = Some (c # cs)"
  shows "\<exists>v' vm'. c_string_ord False vm v argc = Some (v', vm')
      \<and> tt (v' 0) = MRB_TT_FIXNUM \<and> sint (i (v' 0)) = uint c"
proof -
  from bufferD [OF assms] obtain h k a where
    "handle (v 0) = Some h" "h < length (heap vm)" "heap vm ! h = Some (Cell k)"
    "str k = Some a" "a < length (heap vm)" "heap vm ! a = Some (Bytes (c # cs))"
    by blast
  then show ?thesis
    by (simp add: c_string_ord_def peek_def mrbc_release_def memory_defs sint_ucast_u8)
qed

text \<open>
  C8: \<open>c_string_ord\<close> reads the first byte through a plain \<open>char\<close> pointer. Where plain
  \<open>char\<close> is signed, the string of handle 10, whose first byte is 227 (0xE3), gives the
  fixnum -29 and not the byte value 227.
\<close>

theorem c_string_ord_signed_char:
  "peek (example_vm []) (Some 11) 0 = Some 227 \<and>
   (\<exists>v' vm'. c_string_ord True (example_vm []) (window [string_value 10]) 0 = Some (v', vm')
      \<and> tt (v' 0) = MRB_TT_FIXNUM \<and> sint (i (v' 0)) = - 29)"
  by (simp add: c_string_ord_def peek_def mrbc_release_def example_defs memory_defs)

subsection \<open>Append\<close>

lemma c_string_append_other:
  assumes t: "tt (v 1) \<noteq> MRB_TT_STRING" "tt (v 1) \<noteq> MRB_TT_FIXNUM"
    and b: "buffer vm (v 0) = Some bs"
    and l: "scan bs = Some n" "n < 2 ^ 31"
    and p: "plan vm = Grant f m # pl"
  shows "\<exists>vm'. c_string_append vm v argc = Some (v, vm')
           \<and> buffer vm' (v 0) = Some (resize f (n + 2) bs)"
proof -
  from bufferD [OF b] obtain h c a where
    "handle (v 0) = Some h" "h < length (heap vm)" "heap vm ! h = Some (Cell c)"
    "str c = Some a" "a < length (heap vm)" "heap vm ! a = Some (Bytes bs)"
    by blast
  then show ?thesis
    using t l p
    by (cases m)
      (auto simp add: c_string_append_def mrbc_realloc_def set_handle_def memory_defs
        unat_of_nat32_plus2 unat_2_plus_of_nat32 Let_def nth_append nth_list_update)
qed

lemma c_string_append_fixnum:
  assumes t: "tt (v 1) = MRB_TT_FIXNUM"
    and b: "buffer vm (v 0) = Some bs"
    and l: "scan bs = Some n" "n < 2 ^ 31"
    and p: "plan vm = Grant f m # pl"
  shows "\<exists>vm'. c_string_append vm v argc = Some (v, vm')
           \<and> buffer vm' (v 0) = Some (take n bs @ [ucast (i (v 1)), 0])"
proof -
  from bufferD [OF b] obtain h c a where
    "handle (v 0) = Some h" "h < length (heap vm)" "heap vm ! h = Some (Cell c)"
    "str c = Some a" "a < length (heap vm)" "heap vm ! a = Some (Bytes bs)"
    by blast
  then show ?thesis
    using t l p scan_less [OF l(1)]
    by (cases m)
      (auto simp add: c_string_append_def mrbc_realloc_def set_handle_def poke_def memory_defs
        unat_of_nat32 unat_of_nat32_Suc unat_of_nat32_plus2 unat_2_plus_of_nat32 Let_def nth_append nth_list_update
        length_resize append_byte)
qed

text \<open>
  C10 as amended: when the operand of \<open><<\<close> is neither a string nor a fixnum and the
  reallocation is granted, the receiver's buffer is reallocated to exactly \<open>n + 2\<close> bytes,
  whatever its size was (one byte larger when it held exactly the \<open>n + 1\<close> bytes of the
  string), and nothing is written: the first \<open>n + 1\<close> bytes, terminator included, are the
  old ones, so the length and the contents are unchanged.
\<close>

theorem c_string_append_unsupported:
  assumes t: "tt (v 1) \<noteq> MRB_TT_STRING" "tt (v 1) \<noteq> MRB_TT_FIXNUM"
    and b: "buffer vm (v 0) = Some bs"
    and l: "scan bs = Some n" "n < 2 ^ 31"
    and p: "plan vm = Grant f m # pl"
  shows "\<exists>vm' bs'. c_string_append vm v argc = Some (v, vm')
           \<and> buffer vm' (v 0) = Some bs' \<and> length bs' = n + 2
           \<and> take (n + 1) bs' = take (n + 1) bs \<and> bs' ! n = 0
           \<and> string_length vm' (v 0) = Some n
           \<and> contents vm' (v 0) = contents vm (v 0)
           \<and> (length bs = n + 1 \<longrightarrow> length bs' = length bs + 1 \<and> take (length bs) bs' = bs)"
proof -
  from c_string_append_other [OF t b l p] obtain vm' where
    r: "c_string_append vm v argc = Some (v, vm')"
    and b': "buffer vm' (v 0) = Some (resize f (n + 2) bs)"
    by blast
  have lt: "n < length bs" by (rule scan_less [OF l(1)])
  have tk: "take (n + 1) (resize f (n + 2) bs) = take (n + 1) bs"
    using lt by (simp add: take_resize)
  have z: "resize f (n + 2) bs ! n = 0"
    using lt scan_nth_zero [OF l(1)] by (simp add: resize_def nth_append)
  have s: "scan (resize f (n + 2) bs) = Some n"
    using l(1) by (simp add: scan_resize)
  have c: "take n (resize f (n + 2) bs) = take n bs"
    using lt by (simp add: take_resize)
  have e: "length bs = n + 1 \<longrightarrow> take (length bs) (resize f (n + 2) bs) = bs"
    by (simp add: resize_def)
  show ?thesis
    using r b' b l(1) tk z s c e
    by (intro exI [of _ vm'] exI [of _ "resize f (n + 2) bs"])
      (simp add: string_length_def contents_def length_resize)
qed

theorem c_string_append_unsupported_witness:
  "tt (window [string_value 4, nil_value] 1) \<noteq> MRB_TT_STRING \<and>
   tt (window [string_value 4, nil_value] 1) \<noteq> MRB_TT_FIXNUM \<and>
   buffer (example_vm [Grant 7 True]) (window [string_value 4, nil_value] 0)
     = Some (ascii ''foo'' @ [0]) \<and>
   scan (ascii ''foo'' @ [0]) = Some 3 \<and> (3 :: nat) < 2 ^ 31 \<and>
   plan (example_vm [Grant 7 True]) = Grant 7 True # [] \<and>
   (\<exists>vm' bs'. c_string_append (example_vm [Grant 7 True]) (window [string_value 4, nil_value]) 1
                 = Some (window [string_value 4, nil_value], vm')
      \<and> buffer vm' (window [string_value 4, nil_value] 0) = Some bs' \<and> length bs' = 3 + 2
      \<and> take (3 + 1) bs' = take (3 + 1) (ascii ''foo'' @ [0]) \<and> bs' ! 3 = 0
      \<and> string_length vm' (window [string_value 4, nil_value] 0) = Some 3
      \<and> contents vm' (window [string_value 4, nil_value] 0)
          = contents (example_vm [Grant 7 True]) (window [string_value 4, nil_value] 0))"
proof -
  have t: "tt (window [string_value 4, nil_value] 1) \<noteq> MRB_TT_STRING"
    "tt (window [string_value 4, nil_value] 1) \<noteq> MRB_TT_FIXNUM"
    by (simp_all add: example_defs)
  have b: "buffer (example_vm [Grant 7 True]) (window [string_value 4, nil_value] 0)
     = Some (ascii ''foo'' @ [0])"
    by (simp add: example_defs memory_defs)
  have l: "scan (ascii ''foo'' @ [0]) = Some 3" "(3 :: nat) < 2 ^ 31"
    by (simp_all add: ascii_def)
  have p: "plan (example_vm [Grant 7 True]) = Grant 7 True # []"
    by (simp add: example_vm_def)
  from c_string_append_unsupported [OF t b l p, of 1] t b l p
  show ?thesis by blast
qed

text \<open>
  Against C10 as stated: the size asked of the allocator is the scanned length plus 2, not
  the old size plus 1. After one \<open><<\<close> with a nil operand the buffer of "foo" holds 5
  bytes; a second one reallocates it to 5 bytes again, not to one byte more.
\<close>

theorem c_string_append_unsupported_same_size:
  "\<exists>vm1 vm2.
     c_string_append (example_vm [Grant 7 False, Grant 7 False]) (window [string_value 4, nil_value]) 1
       = Some (window [string_value 4, nil_value], vm1)
     \<and> buffer vm1 (string_value 4) = Some (ascii ''foo'' @ [0, 7])
     \<and> c_string_append vm1 (window [string_value 4, nil_value]) 1
       = Some (window [string_value 4, nil_value], vm2)
     \<and> buffer vm2 (string_value 4) = Some (ascii ''foo'' @ [0, 7])
     \<and> length (ascii ''foo'' @ [0, 7 :: u8]) \<noteq> length (ascii ''foo'' @ [0, 7 :: u8]) + 1"
  by (simp add: c_string_append_def mrbc_realloc_def set_handle_def resize_def Let_def
      example_defs memory_defs)

text \<open>
  C5 as amended: when the operand of \<open><<\<close> is a fixnum and the reallocation is granted,
  the buffer becomes the old \<open>n\<close> bytes, the byte \<open>operand mod 256\<close> and a terminator,
  \<open>n + 2\<close> bytes in all (one more than a buffer of \<open>n + 1\<close> bytes). The length becomes
  \<open>n + 1\<close> when that byte is not zero; when it is zero the scanned length stays \<open>n\<close>.
\<close>

theorem c_string_append_integer:
  assumes t: "tt (v 1) = MRB_TT_FIXNUM"
    and b: "buffer vm (v 0) = Some bs"
    and l: "scan bs = Some n" "n < 2 ^ 31"
    and p: "plan vm = Grant f m # pl"
  shows "\<exists>vm' c. c_string_append vm v argc = Some (v, vm')
           \<and> uint c = sint (i (v 1)) mod 256
           \<and> buffer vm' (v 0) = Some (take n bs @ [c, 0])
           \<and> length (take n bs @ [c, 0]) = n + 2
           \<and> (length bs = n + 1 \<longrightarrow> length (take n bs @ [c, 0]) = length bs + 1)
           \<and> (c \<noteq> 0 \<longrightarrow> string_length vm' (v 0) = Some (n + 1)
                \<and> contents vm' (v 0) = Some (take n bs @ [c]))
           \<and> (c = 0 \<longrightarrow> string_length vm' (v 0) = Some n)"
proof -
  from c_string_append_fixnum [OF t b l p] obtain vm' where
    r: "c_string_append vm v argc = Some (v, vm')"
    and b': "buffer vm' (v 0) = Some (take n bs @ [ucast (i (v 1)), 0])"
    by blast
  have lt: "n < length bs" by (rule scan_less [OF l(1)])
  from scan_SomeD [OF l(1)] obtain xs ys where x: "bs = xs @ 0 # ys" "length xs = n" "0 \<notin> set xs"
    by blast
  then have tk: "take n bs = xs" by simp
  have s1: "ucast (i (v 1)) \<noteq> (0 :: u8) \<longrightarrow>
      scan (take n bs @ [ucast (i (v 1)), 0]) = Some (n + 1)"
    using x scan_append_zero [of "xs @ [ucast (i (v 1))]" "[]"] by (simp add: tk)
  have s0: "ucast (i (v 1)) = (0 :: u8) \<longrightarrow>
      scan (take n bs @ [ucast (i (v 1)), 0]) = Some n"
    using x scan_append_zero [of xs "[0]"] by (simp add: tk)
  show ?thesis
    using r b' lt s1 s0
    by (intro exI [of _ vm'] exI [of _ "ucast (i (v 1))"])
      (auto simp add: string_length_def contents_def uint_ucast_low_byte)
qed

theorem c_string_append_integer_witness:
  "tt (window [string_value 4, fixnum_value 33] 1) = MRB_TT_FIXNUM \<and>
   buffer (example_vm [Grant 7 False]) (window [string_value 4, fixnum_value 33] 0)
     = Some (ascii ''foo'' @ [0]) \<and>
   scan (ascii ''foo'' @ [0]) = Some 3 \<and> (3 :: nat) < 2 ^ 31 \<and>
   plan (example_vm [Grant 7 False]) = Grant 7 False # [] \<and>
   (\<exists>vm'. c_string_append (example_vm [Grant 7 False]) (window [string_value 4, fixnum_value 33]) 1
                 = Some (window [string_value 4, fixnum_value 33], vm')
      \<and> buffer vm' (window [string_value 4, fixnum_value 33] 0) = Some (ascii ''foo!'' @ [0])
      \<and> string_length vm' (window [string_value 4, fixnum_value 33] 0) = Some 4
      \<and> contents vm' (window [string_value 4, fixnum_value 33] 0) = Some (ascii ''foo!''))"
proof -
  have t: "tt (window [string_value 4, fixnum_value 33] 1) = MRB_TT_FIXNUM"
    by (simp add: example_defs)
  have b: "buffer (example_vm [Grant 7 False]) (window [string_value 4, fixnum_value 33] 0)
     = Some (ascii ''foo'' @ [0])"
    by (simp add: example_defs memory_defs)
  have l: "scan (ascii ''foo'' @ [0]) = Some 3" "(3 :: nat) < 2 ^ 31"
    by (simp_all add: ascii_def)
  have p: "plan (example_vm [Grant 7 False]) = Grant 7 False # []"
    by (simp add: example_vm_def)
  have k: "sint (i (window [string_value 4, fixnum_value 33] 1)) mod 256 = 33"
    by (simp add: example_defs)
  from c_string_append_integer [OF t b l p, of 1] obtain vm' c where
    r: "c_string_append (example_vm [Grant 7 False]) (window [string_value 4, fixnum_value 33]) 1
          = Some (window [string_value 4, fixnum_value 33], vm')"
    and c: "uint c = sint (i (window [string_value 4, fixnum_value 33] 1)) mod 256"
    and b': "buffer vm' (window [string_value 4, fixnum_value 33] 0)
          = Some (take 3 (ascii ''foo'' @ [0]) @ [c, 0])"
    and s: "c \<noteq> 0 \<longrightarrow> string_length vm' (window [string_value 4, fixnum_value 33] 0) = Some (3 + 1)
          \<and> contents vm' (window [string_value 4, fixnum_value 33] 0)
              = Some (take 3 (ascii ''foo'' @ [0]) @ [c])"
    by blast
  from c k have "uint c = 33" by simp
  then have c33: "c = 33" by (simp add: word_uint_eq_iff)
  from r b' s c33 t b l p show ?thesis
    by (simp add: ascii_def)
qed

text \<open>
  Against C5 as stated: appending the fixnum 0 to "foo" leaves the scanned length 3, not 4.
\<close>

theorem c_string_append_zero_byte:
  "string_length (example_vm [Grant 7 False]) (string_value 4) = Some 3 \<and>
   (\<exists>vm'. c_string_append (example_vm [Grant 7 False]) (window [string_value 4, fixnum_value 0]) 1
             = Some (window [string_value 4, fixnum_value 0], vm')
      \<and> buffer vm' (string_value 4) = Some (ascii ''foo'' @ [0, 0])
      \<and> string_length vm' (string_value 4) = Some 3
      \<and> string_length vm' (string_value 4) \<noteq> Some (3 + 1))"
  by (simp add: c_string_append_def mrbc_realloc_def set_handle_def poke_def resize_def
      string_length_def Let_def example_defs memory_defs)

subsection \<open>Indexed read\<close>

lemma c_string_slice_hit:
  assumes a: "argc = 1" "tt (v 1) = MRB_TT_FIXNUM"
    and b: "buffer vm (v 0) = Some bs"
    and l: "scan bs = Some n" "n < 2 ^ 31"
    and j: "j = (if sint (i (v 1)) < 0 then sint (i (v 1)) + int n else sint (i (v 1)))"
      "0 \<le> j" "j < int n"
    and p: "plan vm = Grant f1 m1 # Grant f2 m2 # pl"
  shows "\<exists>vm'. c_string_slice vm v argc
            = Some (v(0 := \<lparr>tt = MRB_TT_STRING, i = 0, handle = Some (length (heap vm)), str = None\<rparr>), vm')
          \<and> buffer vm' \<lparr>tt = MRB_TT_STRING, i = 0, handle = Some (length (heap vm)), str = None\<rparr>
              = Some [bs ! nat j, 0]
          \<and> released vm' = released vm @ [v 0]"
proof -
  from bufferD [OF b] obtain h c a where
    m: "handle (v 0) = Some h" "h < length (heap vm)" "heap vm ! h = Some (Cell c)"
    "str c = Some a" "a < length (heap vm)" "heap vm ! a = Some (Bytes bs)"
    by blast
  have lt: "n < length bs" by (rule scan_less [OF l(1)])
  have nz: "bs ! nat j \<noteq> 0" using j by (intro scan_nth_nonzero [OF l(1)]) simp
  have jl: "nat j < length bs" using j lt by simp
  show ?thesis
  proof (cases "sint (i (v 1)) < 0")
    case True
    with j have s: "sint (i (v 1) + of_nat n) = j" using l(2) by (simp add: sint_adjust32)
    with j have u: "unat (i (v 1) + of_nat n) = nat j" by (simp add: unat_sint32)
    show ?thesis
      using a m l p True s u j nz jl
      by (simp add: c_string_slice_def mrbc_string_new_def mrbc_alloc_value_def mrbc_alloc_def
          set_handle_def poke_def peek_def mrbc_release_def memory_defs Let_def nth_append
          word_sle_eq word_sless_alt sint_of_nat32 sint_ucast_u8 uint_pos_iff ucast_ucast_u8
          replicate_2)
  next
    case False
    with j have s: "sint (i (v 1)) = j" by simp
    with j have u: "unat (i (v 1)) = nat j" by (simp add: unat_sint32)
    show ?thesis
      using a m l p False s u j nz jl
      by (simp add: c_string_slice_def mrbc_string_new_def mrbc_alloc_value_def mrbc_alloc_def
          set_handle_def poke_def peek_def mrbc_release_def memory_defs Let_def nth_append
          word_sle_eq word_sless_alt sint_of_nat32 sint_ucast_u8 uint_pos_iff ucast_ucast_u8
          replicate_2)
  qed
qed

lemma c_string_slice_miss:
  assumes a: "argc = 1" "tt (v 1) = MRB_TT_FIXNUM"
    and b: "buffer vm (v 0) = Some bs"
    and l: "scan bs = Some n" "n < 2 ^ 31"
    and j: "j = (if sint (i (v 1)) < 0 then sint (i (v 1)) + int n else sint (i (v 1)))"
      "j < 0 \<or> int n \<le> j"
  shows "c_string_slice vm v argc
           = Some (v(0 := (v 0)\<lparr>tt := MRB_TT_NIL\<rparr>), mrbc_release vm (v 0))"
proof -
  from bufferD [OF b] obtain h c a where
    m: "handle (v 0) = Some h" "h < length (heap vm)" "heap vm ! h = Some (Cell c)"
    "str c = Some a" "a < length (heap vm)" "heap vm ! a = Some (Bytes bs)"
    by blast
  show ?thesis
  proof (cases "sint (i (v 1)) < 0")
    case True
    with j have s: "sint (i (v 1) + of_nat n) = j" using l(2) by (simp add: sint_adjust32)
    from True j have "j < 0" by auto
    with s have neg: "sint (i (v 1) + of_nat n) < 0" by simp
    show ?thesis
      using a m l True neg
      by (simp add: c_string_slice_def memory_defs Let_def word_sle_eq word_sless_alt
          sint_of_nat32)
  next
    case False
    with j have "int n \<le> sint (i (v 1))" by auto
    then show ?thesis
      using a m l False
      by (simp add: c_string_slice_def memory_defs Let_def word_sle_eq word_sless_alt
          sint_of_nat32)
  qed
qed

text \<open>
  C3: the single-index read adds the length to a negative index. When the resulting index
  \<open>j\<close> lies inside the string (the byte there is never zero) and the two allocations of
  the constructor are granted, slot 0 receives a string value on a new handle whose buffer
  is that one byte and a terminator. When \<open>j\<close> is out of range, slot 0 becomes nil; no
  diagnostic is printed and the heap is unchanged.
\<close>

theorem c_string_slice_index:
  assumes a: "argc = 1" "tt (v 1) = MRB_TT_FIXNUM"
    and b: "buffer vm (v 0) = Some bs"
    and l: "scan bs = Some n" "n < 2 ^ 31"
    and j: "j = (if sint (i (v 1)) < 0 then sint (i (v 1)) + int n else sint (i (v 1)))"
  shows "(0 \<le> j \<and> j < int n \<and> (\<exists>f1 m1 f2 m2 pl. plan vm = Grant f1 m1 # Grant f2 m2 # pl) \<longrightarrow>
            (\<exists>x vm'. c_string_slice vm v argc = Some (v(0 := x), vm')
               \<and> tt x = MRB_TT_STRING \<and> handle x \<noteq> None \<and> load vm (handle x) = None
               \<and> bs ! nat j \<noteq> 0 \<and> buffer vm' x = Some [bs ! nat j, 0]
               \<and> contents vm' x = Some [bs ! nat j]))
       \<and> (j < 0 \<or> int n \<le> j \<longrightarrow>
            (\<exists>v' vm'. c_string_slice vm v argc = Some (v', vm')
               \<and> tt (v' 0) = MRB_TT_NIL \<and> (\<forall>k. 0 < k \<longrightarrow> v' k = v k)
               \<and> heap vm' = heap vm \<and> console vm' = console vm))"
proof (intro conjI impI)
  assume h: "0 \<le> j \<and> j < int n \<and> (\<exists>f1 m1 f2 m2 pl. plan vm = Grant f1 m1 # Grant f2 m2 # pl)"
  then obtain f1 m1 f2 m2 pl where p: "plan vm = Grant f1 m1 # Grant f2 m2 # pl" by blast
  from h have j0: "0 \<le> j" and jn: "j < int n" by simp_all
  from c_string_slice_hit [OF a b l j j0 jn p] obtain vm' where
    r: "c_string_slice vm v argc
          = Some (v(0 := \<lparr>tt = MRB_TT_STRING, i = 0, handle = Some (length (heap vm)), str = None\<rparr>), vm')"
    and bf: "buffer vm' \<lparr>tt = MRB_TT_STRING, i = 0, handle = Some (length (heap vm)), str = None\<rparr>
          = Some [bs ! nat j, 0]"
    by blast
  have nz: "bs ! nat j \<noteq> 0" using j0 jn by (intro scan_nth_nonzero [OF l(1)]) simp
  show "\<exists>x vm'. c_string_slice vm v argc = Some (v(0 := x), vm')
               \<and> tt x = MRB_TT_STRING \<and> handle x \<noteq> None \<and> load vm (handle x) = None
               \<and> bs ! nat j \<noteq> 0 \<and> buffer vm' x = Some [bs ! nat j, 0]
               \<and> contents vm' x = Some [bs ! nat j]"
    using r bf nz
    by (intro exI [of _ "\<lparr>tt = MRB_TT_STRING, i = 0, handle = Some (length (heap vm)), str = None\<rparr>"]
        exI [of _ vm'])
      (simp add: contents_def load_def)
next
  assume "j < 0 \<or> int n \<le> j"
  from c_string_slice_miss [OF a b l j this]
  show "\<exists>v' vm'. c_string_slice vm v argc = Some (v', vm')
               \<and> tt (v' 0) = MRB_TT_NIL \<and> (\<forall>k. 0 < k \<longrightarrow> v' k = v k)
               \<and> heap vm' = heap vm \<and> console vm' = console vm"
    by (simp add: mrbc_release_def)
qed

theorem c_string_slice_index_witness:
  "tt (window [string_value 0, fixnum_value (- 1)] 1) = MRB_TT_FIXNUM \<and>
   buffer (example_vm [Grant 1 False, Grant 2 False]) (window [string_value 0, fixnum_value (- 1)] 0)
     = Some (ascii ''hello'' @ [0]) \<and>
   scan (ascii ''hello'' @ [0]) = Some 5 \<and> (5 :: nat) < 2 ^ 31 \<and>
   (\<exists>x vm'. c_string_slice (example_vm [Grant 1 False, Grant 2 False])
               (window [string_value 0, fixnum_value (- 1)]) 1
             = Some ((window [string_value 0, fixnum_value (- 1)])(0 := x), vm')
      \<and> tt x = MRB_TT_STRING \<and> buffer vm' x = Some (ascii ''o'' @ [0])) \<and>
   (\<exists>v' vm'. c_string_slice (example_vm [Grant 1 False, Grant 2 False])
               (window [string_value 0, fixnum_value 10]) 1 = Some (v', vm')
      \<and> tt (v' 0) = MRB_TT_NIL)"
proof -
  let ?vm = "example_vm [Grant 1 False, Grant 2 False]"
  let ?v = "window [string_value 0, fixnum_value (- 1)]"
  let ?w = "window [string_value 0, fixnum_value 10]"
  have t: "tt (?v 1) = MRB_TT_FIXNUM" "tt (?w 1) = MRB_TT_FIXNUM"
    by (simp_all add: example_defs)
  have b: "buffer ?vm (?v 0) = Some (ascii ''hello'' @ [0])"
    "buffer ?vm (?w 0) = Some (ascii ''hello'' @ [0])"
    by (simp_all add: example_defs memory_defs)
  have l: "scan (ascii ''hello'' @ [0]) = Some 5" "(5 :: nat) < 2 ^ 31"
    by (simp_all add: ascii_def)
  have j: "(4 :: int) = (if sint (i (?v 1)) < 0 then sint (i (?v 1)) + int 5 else sint (i (?v 1)))"
    by (simp add: example_defs)
  have k: "(10 :: int) = (if sint (i (?w 1)) < 0 then sint (i (?w 1)) + int 5 else sint (i (?w 1)))"
    by (simp add: example_defs)
  have p: "\<exists>f1 m1 f2 m2 pl. plan ?vm = Grant f1 m1 # Grant f2 m2 # pl"
    by (auto simp add: example_vm_def)
  have o: "(ascii ''hello'' @ [0]) ! nat 4 = 111" "ascii ''o'' = [111]"
    by (simp_all add: ascii_def)
  from c_string_slice_index [OF refl t(1) b(1) l j] p o
  have 1: "\<exists>x vm'. c_string_slice ?vm ?v 1 = Some (?v(0 := x), vm')
      \<and> tt x = MRB_TT_STRING \<and> buffer vm' x = Some (ascii ''o'' @ [0])"
    by auto
  from c_string_slice_index [OF refl t(2) b(2) l k]
  have 2: "\<exists>v' vm'. c_string_slice ?vm ?w 1 = Some (v', vm') \<and> tt (v' 0) = MRB_TT_NIL"
    by auto
  from t b l 1 2 show ?thesis by simp
qed

text \<open>The range branch of the method, with the index and the length named.\<close>

lemma c_string_slice_range_unfold:
  assumes "argc = 2" "tt (v 1) = MRB_TT_FIXNUM" "tt (v 2) = MRB_TT_FIXNUM"
    and "MRBC_STRING_CSTR vm (v 0) = Some p" "strlen vm p = Some n"
    and "idx = (if i (v 1) <s 0 then i (v 1) + of_nat n else i (v 1))"
    and "rlen = (if i (v 2) <s of_nat n - idx then i (v 2) else of_nat n - idx)"
  shows "c_string_slice vm v argc =
     (if 0 \<le>s idx \<and> 0 \<le>s rlen
      then (case mrbc_string_new vm (Some (p, unat idx)) rlen of
              None \<Rightarrow> None
            | Some (val, vm1) \<Rightarrow>
                if handle val = None then Some (v, vm1)
                else Some (v(0 := val), mrbc_release vm1 (v 0)))
      else Some (v(0 := (v 0)\<lparr>tt := MRB_TT_NIL\<rparr>), mrbc_release vm (v 0)))"
  using assms by (auto simp add: c_string_slice_def Let_def split: Option.bind_splits)

text \<open>
  C4: the range read adds the length to a negative index. With \<open>j\<close> the resulting index
  and \<open>r = min(span, n - j)\<close>: when \<open>0 \<le> j\<close>, \<open>0 \<le> r\<close> and the constructor's
  allocations are granted, slot 0 receives a new string of the \<open>r\<close> bytes that start at
  position \<open>j\<close>; when \<open>j < 0\<close> or \<open>r < 0\<close>, slot 0 becomes nil.
\<close>

theorem c_string_slice_range:
  assumes a: "argc = 2" "tt (v 1) = MRB_TT_FIXNUM" "tt (v 2) = MRB_TT_FIXNUM"
    and b: "buffer vm (v 0) = Some bs"
    and l: "scan bs = Some n" "n < 2 ^ 31"
    and j: "j = (if sint (i (v 1)) < 0 then sint (i (v 1)) + int n else sint (i (v 1)))"
    and r: "r = min (sint (i (v 2))) (int n - j)"
  shows "(0 \<le> j \<and> 0 \<le> r \<and> (\<exists>f1 m1 f2 m2 pl. plan vm = Grant f1 m1 # Grant f2 m2 # pl) \<longrightarrow>
            (\<exists>x vm'. c_string_slice vm v argc = Some (v(0 := x), vm')
               \<and> tt x = MRB_TT_STRING \<and> handle x \<noteq> None \<and> load vm (handle x) = None
               \<and> buffer vm' x = Some (take (nat r) (drop (nat j) bs) @ [0])
               \<and> length (take (nat r) (drop (nat j) bs)) = nat r
               \<and> contents vm' x = Some (take (nat r) (drop (nat j) bs))))
       \<and> (j < 0 \<or> r < 0 \<longrightarrow>
            (\<exists>v' vm'. c_string_slice vm v argc = Some (v', vm')
               \<and> tt (v' 0) = MRB_TT_NIL \<and> (\<forall>k. 0 < k \<longrightarrow> v' k = v k)
               \<and> heap vm' = heap vm \<and> console vm' = console vm))"
proof -
  from buffer_ptrD [OF b] obtain p where
    p: "MRBC_STRING_CSTR vm (v 0) = Some p" "load_bytes vm p = Some bs" by blast
  with l(1) have sl: "strlen vm p = Some n" by (simp add: strlen_def)
  define idx where "idx = (if i (v 1) <s 0 then i (v 1) + of_nat n else i (v 1))"
  define rlen where "rlen = (if i (v 2) <s of_nat n - idx then i (v 2) else of_nat n - idx)"
  note u = c_string_slice_range_unfold [OF a p(1) sl idx_def rlen_def]
  have sj: "sint idx = j" unfolding idx_def j using l(2) by (rule slice_idx32)
  have lt: "n < length bs" by (rule scan_less [OF l(1)])
  show ?thesis
  proof (intro conjI impI)
    assume h: "0 \<le> j \<and> 0 \<le> r \<and> (\<exists>f1 m1 f2 m2 pl. plan vm = Grant f1 m1 # Grant f2 m2 # pl)"
    then obtain f1 m1 f2 m2 pl where pl: "plan vm = Grant f1 m1 # Grant f2 m2 # pl" by blast
    from h have j0: "0 \<le> j" and r0: "0 \<le> r" by simp_all
    from j0 sj have i0: "0 \<le> sint idx" by simp
    have sr: "sint rlen = r" unfolding rlen_def r sj [symmetric] using l(2) i0 by (rule slice_len32)
    from j0 sj have uj: "unat idx = nat j" by (simp add: unat_sint32)
    from r0 sr have ur: "unat rlen = nat r" by (simp add: unat_sint32)
    have rb: "nat r < 2 ^ 31" using sint_lt [of rlen] sr r0 by simp
    have "r \<le> int n - j" unfolding r by simp
    with j0 r0 have le: "nat j + nat r \<le> n" by linarith
    then have le': "nat j + nat r \<le> length bs" using lt by simp
    have w: "of_nat (nat r) = rlen" using ur [symmetric] by simp
    from mrbc_string_new_copy [OF pl rb p(2) le'] obtain vm' where
      n: "mrbc_string_new vm (Some (p, nat j)) rlen
            = Some (\<lparr>tt = MRB_TT_STRING, i = 0, handle = Some (length (heap vm)), str = None\<rparr>, vm')"
      and bf: "buffer vm' \<lparr>tt = MRB_TT_STRING, i = 0, handle = Some (length (heap vm)), str = None\<rparr>
            = Some (take (nat r) (drop (nat j) bs) @ [0])"
      unfolding w by blast
    have len: "length (take (nat r) (drop (nat j) bs)) = nat r" using le' by simp
    have nz: "0 \<notin> set (take (nat r) (drop (nat j) bs))" by (rule slice_inside [OF l(1) le])
    have res: "c_string_slice vm v argc
        = Some (v(0 := \<lparr>tt = MRB_TT_STRING, i = 0, handle = Some (length (heap vm)), str = None\<rparr>),
                mrbc_release vm' (v 0))"
      using i0 r0 sr uj n by (simp add: u word_sle_eq)
    have bf': "buffer (mrbc_release vm' (v 0))
          \<lparr>tt = MRB_TT_STRING, i = 0, handle = Some (length (heap vm)), str = None\<rparr>
        = Some (take (nat r) (drop (nat j) bs) @ [0])"
      using bf buffer_heap_eq [of "mrbc_release vm' (v 0)" vm'] by (simp add: mrbc_release_def)
    show "\<exists>x vm'. c_string_slice vm v argc = Some (v(0 := x), vm')
               \<and> tt x = MRB_TT_STRING \<and> handle x \<noteq> None \<and> load vm (handle x) = None
               \<and> buffer vm' x = Some (take (nat r) (drop (nat j) bs) @ [0])
               \<and> length (take (nat r) (drop (nat j) bs)) = nat r
               \<and> contents vm' x = Some (take (nat r) (drop (nat j) bs))"
      using res bf' len nz
      by (intro exI [of _ "\<lparr>tt = MRB_TT_STRING, i = 0, handle = Some (length (heap vm)), str = None\<rparr>"]
          exI [of _ "mrbc_release vm' (v 0)"])
        (simp add: contents_def load_def scan_append_zero)
  next
    assume h: "j < 0 \<or> r < 0"
    have nc: "\<not> (0 \<le>s idx \<and> 0 \<le>s rlen)"
    proof (cases "j < 0")
      case True
      with sj show ?thesis by (simp add: word_sle_eq)
    next
      case False
      with sj have i0: "0 \<le> sint idx" by simp
      have sr: "sint rlen = r" unfolding rlen_def r sj [symmetric] using l(2) i0 by (rule slice_len32)
      from False h have "r < 0" by simp
      with sr show ?thesis by (simp add: word_sle_eq)
    qed
    have "c_string_slice vm v argc
        = Some (v(0 := (v 0)\<lparr>tt := MRB_TT_NIL\<rparr>), mrbc_release vm (v 0))"
      by (rule trans [OF u if_not_P [OF nc]])
    then show "\<exists>v' vm'. c_string_slice vm v argc = Some (v', vm')
               \<and> tt (v' 0) = MRB_TT_NIL \<and> (\<forall>k. 0 < k \<longrightarrow> v' k = v k)
               \<and> heap vm' = heap vm \<and> console vm' = console vm"
      by (simp add: mrbc_release_def)
  qed
qed

theorem c_string_slice_range_witness:
  "tt (window [string_value 0, fixnum_value 3, fixnum_value 100] 1) = MRB_TT_FIXNUM \<and>
   tt (window [string_value 0, fixnum_value 3, fixnum_value 100] 2) = MRB_TT_FIXNUM \<and>
   buffer (example_vm [Grant 1 False, Grant 2 False])
     (window [string_value 0, fixnum_value 3, fixnum_value 100] 0) = Some (ascii ''hello'' @ [0]) \<and>
   scan (ascii ''hello'' @ [0]) = Some 5 \<and> (5 :: nat) < 2 ^ 31 \<and>
   (\<exists>x vm'. c_string_slice (example_vm [Grant 1 False, Grant 2 False])
               (window [string_value 0, fixnum_value 3, fixnum_value 100]) 2
             = Some ((window [string_value 0, fixnum_value 3, fixnum_value 100])(0 := x), vm')
      \<and> tt x = MRB_TT_STRING \<and> buffer vm' x = Some (ascii ''lo'' @ [0])
      \<and> contents vm' x = Some (ascii ''lo'')) \<and>
   (\<exists>v' vm'. c_string_slice (example_vm [Grant 1 False, Grant 2 False])
               (window [string_value 0, fixnum_value (- 10), fixnum_value 2]) 2 = Some (v', vm')
      \<and> tt (v' 0) = MRB_TT_NIL)"
proof -
  let ?vm = "example_vm [Grant 1 False, Grant 2 False]"
  let ?v = "window [string_value 0, fixnum_value 3, fixnum_value 100]"
  let ?w = "window [string_value 0, fixnum_value (- 10), fixnum_value 2]"
  have t: "tt (?v 1) = MRB_TT_FIXNUM" "tt (?v 2) = MRB_TT_FIXNUM"
    "tt (?w 1) = MRB_TT_FIXNUM" "tt (?w 2) = MRB_TT_FIXNUM"
    by (simp_all add: example_defs)
  have b: "buffer ?vm (?v 0) = Some (ascii ''hello'' @ [0])"
    "buffer ?vm (?w 0) = Some (ascii ''hello'' @ [0])"
    by (simp_all add: example_defs memory_defs)
  have l: "scan (ascii ''hello'' @ [0]) = Some 5" "(5 :: nat) < 2 ^ 31"
    by (simp_all add: ascii_def)
  have j: "(3 :: int) = (if sint (i (?v 1)) < 0 then sint (i (?v 1)) + int 5 else sint (i (?v 1)))"
    by (simp add: example_defs)
  have r: "(2 :: int) = min (sint (i (?v 2))) (int 5 - 3)"
    by (simp add: example_defs)
  have k: "(- 5 :: int) = (if sint (i (?w 1)) < 0 then sint (i (?w 1)) + int 5 else sint (i (?w 1)))"
    by (simp add: example_defs)
  have q: "(2 :: int) = min (sint (i (?w 2))) (int 5 - (- 5))"
    by (simp add: example_defs)
  have p: "\<exists>f1 m1 f2 m2 pl. plan ?vm = Grant f1 m1 # Grant f2 m2 # pl"
    by (auto simp add: example_vm_def)
  have o: "take (nat 2) (drop (nat 3) (ascii ''hello'' @ [0])) = ascii ''lo''"
    by (simp add: ascii_def)
  have z: "(0 :: int) \<le> 3" "(0 :: int) \<le> 2" "(- 5 :: int) < 0 \<or> (2 :: int) < 0"
    by simp_all
  from c_string_slice_range [OF refl t(1,2) b(1) l j r] p z(1,2)
  have "\<exists>x vm'. c_string_slice ?vm ?v 2 = Some (?v(0 := x), vm')
      \<and> tt x = MRB_TT_STRING
      \<and> buffer vm' x = Some (take (nat 2) (drop (nat 3) (ascii ''hello'' @ [0])) @ [0])
      \<and> contents vm' x = Some (take (nat 2) (drop (nat 3) (ascii ''hello'' @ [0])))"
    by blast
  then have 1: "\<exists>x vm'. c_string_slice ?vm ?v 2 = Some (?v(0 := x), vm')
      \<and> tt x = MRB_TT_STRING \<and> buffer vm' x = Some (ascii ''lo'' @ [0])
      \<and> contents vm' x = Some (ascii ''lo'')"
    unfolding o .
  from c_string_slice_range [OF refl t(3,4) b(2) l k q] z(3)
  have 2: "\<exists>v' vm'. c_string_slice ?vm ?w 2 = Some (v', vm') \<and> tt (v' 0) = MRB_TT_NIL"
    by blast
  from t(1,2) b(1) l 1 2 show ?thesis by blast
qed

subsection \<open>Indexed splice\<close>

text \<open>The two accepted argument shapes of the method, with the operands named.\<close>

lemma c_string_insert_unfold:
  assumes "(argc = 2 \<and> tt (v 1) = MRB_TT_FIXNUM \<and> tt (v 2) = MRB_TT_STRING
              \<and> nth0 = i (v 1) \<and> len0 = 1 \<and> val = v 2)
         \<or> (argc = 3 \<and> tt (v 1) = MRB_TT_FIXNUM \<and> tt (v 2) = MRB_TT_FIXNUM
              \<and> tt (v 3) = MRB_TT_STRING \<and> nth0 = i (v 1) \<and> len0 = i (v 2) \<and> val = v 3)"
    and "MRBC_STRING_CSTR vm (v 0) = Some p1" "strlen vm p1 = Some n1"
    and "MRBC_STRING_CSTR vm val = Some p2" "strlen vm p2 = Some n2"
    and "nth1 = (if nth0 <s 0 then of_nat n1 + nth0 else nth0)"
    and "len = (if of_nat n1 - nth1 <s len0 then of_nat n1 - nth1 else len0)"
  shows "c_string_insert vm v argc =
     (if nth1 <s 0 \<or> of_nat n1 <s nth1 \<or> len <s 0
      then Some (v, console_print vm ''IndexError\<newline>'')
      else do {
        (s, vm1) \<leftarrow> mrbc_realloc vm p1 (unat (of_nat n1 + of_nat n2 - len + 1));
        if s = None then Some (v, vm1)
        else do {
          vm2 \<leftarrow> memmove vm1 s (unat nth1 + unat (of_nat n2 :: cint)) s (unat nth1 + unat len)
                   (unat (of_nat n1 - nth1 - len));
          q2 \<leftarrow> MRBC_STRING_CSTR vm2 val;
          vm3 \<leftarrow> memcpy vm2 s (unat nth1) q2 0 (unat (of_nat n2 :: cint));
          vm4 \<leftarrow> poke vm3 s (unat (of_nat n1 + of_nat n2 - len)) 0;
          vm5 \<leftarrow> set_handle vm4 (handle (v 0)) (\<lambda>c. c\<lparr>str := s\<rparr>);
          Some (v, vm5) } })"
proof -
  have sel: "(if argc = 2 \<and> tt (v 1) = MRB_TT_FIXNUM \<and> tt (v 2) = MRB_TT_STRING
            then Some (i (v 1), 1, v 2)
            else if argc = 3 \<and> tt (v 1) = MRB_TT_FIXNUM \<and> tt (v 2) = MRB_TT_FIXNUM
                    \<and> tt (v 3) = MRB_TT_STRING
            then Some (i (v 1), i (v 2), v 3)
            else None) = Some (nth0, len0, val)"
    using assms(1) by auto
  show ?thesis
    unfolding assms(7) assms(6) c_string_insert_def sel
    by (simp only: option.case prod.case assms(2-5) Option.bind.bind_lunit Let_def)
qed

text \<open>
  The example of the specification: replacing two bytes of "hello" from index 1 by "XYZ"
  gives "hXYZlo".
\<close>

lemma c_string_insert_example:
  "\<exists>vm'. c_string_insert (example_vm [Grant 7 True])
      (window [string_value 0, fixnum_value 1, fixnum_value 2, string_value 2]) 3
        = Some (window [string_value 0, fixnum_value 1, fixnum_value 2, string_value 2], vm')
     \<and> buffer vm' (string_value 0) = Some (ascii ''hXYZlo'' @ [0])
     \<and> string_length vm' (string_value 0) = Some 6"
  by (simp add: run_defs example_defs memory_defs string_length_def)

text \<open>
  C2: with \<open>j\<close> the index after the receiver's length was added to a negative index and
  \<open>sp\<close> the span clamped to \<open>n - j\<close>: when \<open>j < 0\<close>, \<open>j > n\<close> or \<open>sp < 0\<close>, the method
  prints the index error and returns with the registers and the heap unchanged; in every
  other case no run of the method prints anything.
\<close>

theorem c_string_insert_index_error:
  assumes shape: "(argc = 2 \<and> tt (v 1) = MRB_TT_FIXNUM \<and> tt (v 2) = MRB_TT_STRING
              \<and> nth0 = i (v 1) \<and> len0 = 1 \<and> val = v 2)
         \<or> (argc = 3 \<and> tt (v 1) = MRB_TT_FIXNUM \<and> tt (v 2) = MRB_TT_FIXNUM
              \<and> tt (v 3) = MRB_TT_STRING \<and> nth0 = i (v 1) \<and> len0 = i (v 2) \<and> val = v 3)"
    and b1: "buffer vm (v 0) = Some bs" and l1: "scan bs = Some n" "n < 2 ^ 31"
    and b2: "buffer vm val = Some rs" and l2: "scan rs = Some n2"
    and j: "j = (if sint nth0 < 0 then int n + sint nth0 else sint nth0)"
    and s: "sp = min (sint len0) (int n - j)"
  shows "(j < 0 \<or> int n < j \<or> sp < 0 \<longrightarrow>
            (\<exists>vm'. c_string_insert vm v argc = Some (v, vm') \<and> heap vm' = heap vm
               \<and> buffer vm' (v 0) = Some bs
               \<and> console vm' = console vm @ [''IndexError\<newline>'']))
       \<and> (0 \<le> j \<and> j \<le> int n \<and> 0 \<le> sp \<longrightarrow>
            (\<forall>v' vm'. c_string_insert vm v argc = Some (v', vm') \<longrightarrow> console vm' = console vm))"
proof -
  from buffer_ptrD [OF b1] obtain p1 where
    p1: "MRBC_STRING_CSTR vm (v 0) = Some p1" "load_bytes vm p1 = Some bs" by blast
  from buffer_ptrD [OF b2] obtain p2 where
    p2: "MRBC_STRING_CSTR vm val = Some p2" "load_bytes vm p2 = Some rs" by blast
  have sl1: "strlen vm p1 = Some n" using p1 l1 by (simp add: strlen_def)
  have sl2: "strlen vm p2 = Some n2" using p2 l2 by (simp add: strlen_def)
  define nth1 where "nth1 = (if nth0 <s 0 then of_nat n + nth0 else nth0)"
  define len where "len = (if of_nat n - nth1 <s len0 then of_nat n - nth1 else len0)"
  note u = c_string_insert_unfold [OF shape p1(1) sl1 p2(1) sl2 nth1_def len_def]
  note chk = insert_check32 [OF l1(2) nth1_def len_def j s]
  show ?thesis
  proof (intro conjI impI allI)
    assume "j < 0 \<or> int n < j \<or> sp < 0"
    with chk have c: "nth1 <s 0 \<or> of_nat n <s nth1 \<or> len <s 0" by simp
    have r: "c_string_insert vm v argc = Some (v, console_print vm ''IndexError\<newline>'')"
      unfolding u if_P [OF c] ..
    have h: "heap (console_print vm ''IndexError\<newline>'') = heap vm"
      by (simp add: console_print_def)
    from r h b1 buffer_heap_eq [OF h, of "v 0"]
    show "\<exists>vm'. c_string_insert vm v argc = Some (v, vm') \<and> heap vm' = heap vm
               \<and> buffer vm' (v 0) = Some bs
               \<and> console vm' = console vm @ [''IndexError\<newline>'']"
      by (simp add: console_print_def)
  next
    fix v' vm'
    assume "0 \<le> j \<and> j \<le> int n \<and> 0 \<le> sp"
    with chk have c: "\<not> (nth1 <s 0 \<or> of_nat n <s nth1 \<or> len <s 0)" by simp
    assume "c_string_insert vm v argc = Some (v', vm')"
    then show "console vm' = console vm"
      unfolding u if_not_P [OF c]
      by (auto split: Option.bind_splits if_splits
          dest!: console_realloc console_memmove console_memcpy console_poke console_set_handle)
  qed
qed

theorem c_string_insert_index_error_witness:
  "buffer (example_vm [Grant 7 True]) (window [string_value 0, fixnum_value (- 6), fixnum_value 3, string_value 2] 0)
     = Some (ascii ''hello'' @ [0]) \<and>
   scan (ascii ''hello'' @ [0]) = Some 5 \<and>
   buffer (example_vm [Grant 7 True]) (string_value 2) = Some (ascii ''XYZ'' @ [0]) \<and>
   scan (ascii ''XYZ'' @ [0]) = Some 3 \<and>
   (\<exists>vm'. c_string_insert (example_vm [Grant 7 True])
             (window [string_value 0, fixnum_value (- 6), fixnum_value 3, string_value 2]) 3
           = Some (window [string_value 0, fixnum_value (- 6), fixnum_value 3, string_value 2], vm')
      \<and> heap vm' = heap (example_vm [Grant 7 True])
      \<and> buffer vm' (window [string_value 0, fixnum_value (- 6), fixnum_value 3, string_value 2] 0)
          = Some (ascii ''hello'' @ [0])
      \<and> console vm' = console (example_vm [Grant 7 True]) @ [''IndexError\<newline>'']) \<and>
   (\<exists>vm'. c_string_insert (example_vm [Grant 7 True])
             (window [string_value 0, fixnum_value 1, fixnum_value 2, string_value 2]) 3
           = Some (window [string_value 0, fixnum_value 1, fixnum_value 2, string_value 2], vm')
      \<and> console vm' = console (example_vm [Grant 7 True]))"
proof -
  let ?vm = "example_vm [Grant 7 True]"
  let ?v = "window [string_value 0, fixnum_value (- 6), fixnum_value 3, string_value 2]"
  let ?w = "window [string_value 0, fixnum_value 1, fixnum_value 2, string_value 2]"
  have sv: "(3 = (2 :: int) \<and> tt (?v 1) = MRB_TT_FIXNUM \<and> tt (?v 2) = MRB_TT_STRING
              \<and> - 6 = i (?v 1) \<and> (3 :: cint) = 1 \<and> string_value 2 = ?v 2)
         \<or> (3 = (3 :: int) \<and> tt (?v 1) = MRB_TT_FIXNUM \<and> tt (?v 2) = MRB_TT_FIXNUM
              \<and> tt (?v 3) = MRB_TT_STRING \<and> - 6 = i (?v 1) \<and> 3 = i (?v 2)
              \<and> string_value 2 = ?v 3)"
    by (simp add: example_defs)
  have sw: "(3 = (2 :: int) \<and> tt (?w 1) = MRB_TT_FIXNUM \<and> tt (?w 2) = MRB_TT_STRING
              \<and> 1 = i (?w 1) \<and> (2 :: cint) = 1 \<and> string_value 2 = ?w 2)
         \<or> (3 = (3 :: int) \<and> tt (?w 1) = MRB_TT_FIXNUM \<and> tt (?w 2) = MRB_TT_FIXNUM
              \<and> tt (?w 3) = MRB_TT_STRING \<and> 1 = i (?w 1) \<and> 2 = i (?w 2)
              \<and> string_value 2 = ?w 3)"
    by (simp add: example_defs)
  have b: "buffer ?vm (?v 0) = Some (ascii ''hello'' @ [0])"
    "buffer ?vm (?w 0) = Some (ascii ''hello'' @ [0])"
    "buffer ?vm (string_value 2) = Some (ascii ''XYZ'' @ [0])"
    by (simp_all add: example_defs memory_defs)
  have l: "scan (ascii ''hello'' @ [0]) = Some 5" "(5 :: nat) < 2 ^ 31"
    "scan (ascii ''XYZ'' @ [0]) = Some 3"
    by (simp_all add: ascii_def)
  have jv: "(- 1 :: int) = (if sint (- 6 :: cint) < 0 then int 5 + sint (- 6 :: cint) else sint (- 6 :: cint))"
    by simp
  have sv': "(3 :: int) = min (sint (3 :: cint)) (int 5 - (- 1))" by simp
  have jw: "(1 :: int) = (if sint (1 :: cint) < 0 then int 5 + sint (1 :: cint) else sint (1 :: cint))"
    by simp
  have sw': "(2 :: int) = min (sint (2 :: cint)) (int 5 - 1)" by simp
  have z: "(- 1 :: int) < 0 \<or> int 5 < - 1 \<or> (3 :: int) < 0"
    "(0 :: int) \<le> 1 \<and> (1 :: int) \<le> int 5 \<and> (0 :: int) \<le> 2"
    by simp_all
  from c_string_insert_index_error [OF sv b(1) l(1,2) b(3) l(3) jv sv'] z(1)
  have 1: "\<exists>vm'. c_string_insert ?vm ?v 3 = Some (?v, vm') \<and> heap vm' = heap ?vm
      \<and> buffer vm' (?v 0) = Some (ascii ''hello'' @ [0])
      \<and> console vm' = console ?vm @ [''IndexError\<newline>'']"
    by blast
  from c_string_insert_example obtain vm' where
    r: "c_string_insert ?vm ?w 3 = Some (?w, vm')" by blast
  from c_string_insert_index_error [OF sw b(2) l(1,2) b(3) l(3) jw sw'] z(2) r
  have "console vm' = console ?vm" by blast
  with r have 2: "\<exists>vm'. c_string_insert ?vm ?w 3 = Some (?w, vm') \<and> console vm' = console ?vm"
    by blast
  from b(1,3) l(1,3) 1 2 show ?thesis by blast
qed

text \<open>
  What the accepted path computes, when the receiver and the replacement are different
  buffers and the replacement is at most one byte shorter than the span (or nothing
  follows the span): the first \<open>j\<close> bytes, the replacement, the old bytes from
  \<open>j + sp\<close> to \<open>n1\<close>, and the terminator.
\<close>

lemma insert_body:
  assumes m1: "handle x = Some h1" "h1 < length (heap vm)" "heap vm ! h1 = Some (Cell c1)"
      "str c1 = Some a1" "a1 < length (heap vm)" "heap vm ! a1 = Some (Bytes bs)"
    and m2: "handle y = Some h2" "h2 < length (heap vm)" "heap vm ! h2 = Some (Cell c2)"
      "str c2 = Some a2" "a2 < length (heap vm)" "heap vm ! a2 = Some (Bytes rs)"
    and ne: "a1 \<noteq> a2"
    and p: "plan vm = Grant f m # pl"
    and a: "J + S \<le> n1" "n1 < length bs" "n2 < length rs" "S \<le> n2 + 1 \<or> J + S = n1"
  shows "\<exists>vm'. do {
            (s, vm1) \<leftarrow> mrbc_realloc vm (Some a1) (n1 + n2 - S + 1);
            if s = None then Some (v, vm1)
            else do {
              vm2 \<leftarrow> memmove vm1 s (J + n2) s (J + S) (n1 - J - S);
              q2 \<leftarrow> MRBC_STRING_CSTR vm2 y;
              vm3 \<leftarrow> memcpy vm2 s J q2 0 n2;
              vm4 \<leftarrow> poke vm3 s (n1 + n2 - S) 0;
              vm5 \<leftarrow> set_handle vm4 (handle x) (\<lambda>c. c\<lparr>str := s\<rparr>);
              Some (v, vm5) } } = Some (v, vm')
          \<and> buffer vm' x
              = Some (take J bs @ take n2 rs @ take (n1 - J - S) (drop (J + S) bs) @ [0])
          \<and> buffer vm' y = Some rs"
proof -
  note r = splice_list(1) [OF a(1,2,4), of f]
  from splice_list(2) [OF a(1,2,4), of f "take n2 rs"] a(3)
  obtain B1 B2 where
    w1: "write_bytes (resize f (n1 + n2 - S + 1) bs) (J + n2) (take (n1 - J - S) (drop (J + S) bs))
           = Some B1"
    and w2: "write_bytes B1 J (take n2 rs) = Some B2"
    and l2: "n1 + n2 - S < length B2"
    and fin: "B2[n1 + n2 - S := 0]
               = take J bs @ take n2 rs @ take (n1 - J - S) (drop (J + S) bs) @ [0]"
    by auto
  have r2: "read_bytes rs 0 n2 = Some (take n2 rs)"
    using a(3) by (simp add: read_bytes_def in_bounds_def)
  have d: "h1 \<noteq> a1" "h2 \<noteq> a1" "h1 \<noteq> a2" "h2 \<noteq> a2" "h1 \<noteq> h2"
    using m1 m2 ne by auto
  show ?thesis
  proof (cases m)
    case True
    show ?thesis
      using m1 m2 ne p True d r w1 w2 l2 fin r2
      by (simp add: mrbc_realloc_def memmove_def memcpy_def poke_def set_handle_def memory_defs
          nth_append nth_list_update)
  next
    case False
    show ?thesis
      using m1 m2 ne p False d r w1 w2 l2 fin r2
      by (simp add: mrbc_realloc_def memmove_def memcpy_def poke_def set_handle_def memory_defs
          nth_append nth_list_update)
  qed
qed

lemma c_string_insert_splice:
  assumes shape: "(argc = 2 \<and> tt (v 1) = MRB_TT_FIXNUM \<and> tt (v 2) = MRB_TT_STRING
              \<and> nth0 = i (v 1) \<and> len0 = 1 \<and> val = v 2)
         \<or> (argc = 3 \<and> tt (v 1) = MRB_TT_FIXNUM \<and> tt (v 2) = MRB_TT_FIXNUM
              \<and> tt (v 3) = MRB_TT_STRING \<and> nth0 = i (v 1) \<and> len0 = i (v 2) \<and> val = v 3)"
    and b1: "buffer vm (v 0) = Some bs" and l1: "scan bs = Some n1"
    and b2: "buffer vm val = Some rs" and l2: "scan rs = Some n2"
    and ne: "MRBC_STRING_CSTR vm (v 0) \<noteq> MRBC_STRING_CSTR vm val"
    and bd: "n1 + n2 + 1 < 2 ^ 31"
    and j: "j = (if sint nth0 < 0 then int n1 + sint nth0 else sint nth0)"
    and s: "sp = min (sint len0) (int n1 - j)"
    and ok: "0 \<le> j" "j \<le> int n1" "0 \<le> sp"
    and fit: "sp \<le> int n2 + 1 \<or> j + sp = int n1"
    and p: "plan vm = Grant f m # pl"
  shows "\<exists>vm'. c_string_insert vm v argc = Some (v, vm')
          \<and> buffer vm' (v 0)
              = Some (take (nat j) bs @ take n2 rs
                       @ take (n1 - nat j - nat sp) (drop (nat j + nat sp) bs) @ [0])"
proof -
  from bufferD [OF b1] obtain h1 c1 a1 where
    m1: "handle (v 0) = Some h1" "h1 < length (heap vm)" "heap vm ! h1 = Some (Cell c1)"
      "str c1 = Some a1" "a1 < length (heap vm)" "heap vm ! a1 = Some (Bytes bs)"
    by blast
  from bufferD [OF b2] obtain h2 c2 a2 where
    m2: "handle val = Some h2" "h2 < length (heap vm)" "heap vm ! h2 = Some (Cell c2)"
      "str c2 = Some a2" "a2 < length (heap vm)" "heap vm ! a2 = Some (Bytes rs)"
    by blast
  have p1: "MRBC_STRING_CSTR vm (v 0) = Some (Some a1)" using m1 by (simp add: memory_defs)
  have p2: "MRBC_STRING_CSTR vm val = Some (Some a2)" using m2 by (simp add: memory_defs)
  from ne p1 p2 have na: "a1 \<noteq> a2" by simp
  have sl1: "strlen vm (Some a1) = Some n1" using m1 l1 by (simp add: memory_defs)
  have sl2: "strlen vm (Some a2) = Some n2" using m2 l2 by (simp add: memory_defs)
  have n1: "n1 < 2 ^ 31" using bd by simp
  define nth1 where "nth1 = (if nth0 <s 0 then of_nat n1 + nth0 else nth0)"
  define len where "len = (if of_nat n1 - nth1 <s len0 then of_nat n1 - nth1 else len0)"
  note u = c_string_insert_unfold [OF shape p1 sl1 p2 sl2 nth1_def len_def]
  have chk: "\<not> (nth1 <s 0 \<or> of_nat n1 <s nth1 \<or> len <s 0)"
    using insert_check32 [OF n1 nth1_def len_def j s] ok by simp
  have sj: "sint nth1 = j" unfolding nth1_def j using n1 by (rule insert_nth32)
  with ok have "0 \<le> sint nth1" by simp
  then have ss: "sint len = sp" unfolding len_def s sj [symmetric] using n1 by (intro insert_len32)
  have sj': "sint nth1 = int (nat j)" using sj ok by simp
  have ss': "sint len = int (nat sp)" using ss ok by simp
  have "sp \<le> int n1 - j" unfolding s by simp
  with ok have le: "nat j + nat sp \<le> n1" by linarith
  note sz = insert_sizes32 [OF bd sj' ss' le]
  have fit': "nat sp \<le> n2 + 1 \<or> nat j + nat sp = n1" using fit ok by linarith
  from insert_body [OF m1 m2 na p le scan_less [OF l1] scan_less [OF l2] fit', of v]
  obtain vm' where
    run: "do {
        (s, vm1) \<leftarrow> mrbc_realloc vm (Some a1) (n1 + n2 - nat sp + 1);
        if s = None then Some (v, vm1)
        else do {
          vm2 \<leftarrow> memmove vm1 s (nat j + n2) s (nat j + nat sp) (n1 - nat j - nat sp);
          q2 \<leftarrow> MRBC_STRING_CSTR vm2 val;
          vm3 \<leftarrow> memcpy vm2 s (nat j) q2 0 n2;
          vm4 \<leftarrow> poke vm3 s (n1 + n2 - nat sp) 0;
          vm5 \<leftarrow> set_handle vm4 (handle (v 0)) (\<lambda>c. c\<lparr>str := s\<rparr>);
          Some (v, vm5) } } = Some (v, vm')"
    and bf: "buffer vm' (v 0)
        = Some (take (nat j) bs @ take n2 rs
                 @ take (n1 - nat j - nat sp) (drop (nat j + nat sp) bs) @ [0])"
    by blast
  from run have "c_string_insert vm v argc = Some (v, vm')"
    unfolding u if_not_P [OF chk] sz .
  with bf show ?thesis by blast
qed

text \<open>
  C1: the buffer is reallocated to its final size before the tail is moved. When the
  replacement is two or more bytes shorter than the span, the reallocated block no longer
  holds the tail: replacing the first four bytes of "hello" by "A" reallocates the block
  to 3 bytes ("hel") and then reads the byte at offset 4, outside the block, instead of
  producing "Ao".
\<close>

theorem c_string_insert_shrink:
  "buffer (example_vm [Grant 7 False]) (string_value 0) = Some (ascii ''hello'' @ [0]) \<and>
   buffer (example_vm [Grant 7 False]) (string_value 6) = Some (ascii ''A'' @ [0]) \<and>
   (\<exists>vm1. mrbc_realloc (example_vm [Grant 7 False]) (Some 1) (5 + 1 - 4 + 1) = Some (Some 1, vm1)
      \<and> load_bytes vm1 (Some 1) = Some (ascii ''hel'')
      \<and> memmove vm1 (Some 1) (0 + 1) (Some 1) (0 + 4) (5 - 0 - 4) = None) \<and>
   c_string_insert (example_vm [Grant 7 False])
     (window [string_value 0, fixnum_value 0, fixnum_value 4, string_value 6]) 3 = None \<and>
   c_string_insert (example_vm [Grant 7 True])
     (window [string_value 0, fixnum_value 0, fixnum_value 4, string_value 6]) 3 = None"
  by (simp add: run_defs example_defs memory_defs)

end
